theory Spec2Isabelle
  imports Main "HOL-Library.Sublist"
begin

section \<open>Strings\<close>

text \<open>
  Python's \<^verbatim>\<open>sep.join(xs)\<close> and \<^verbatim>\<open>str(n)\<close> for an integer, which the
  f-strings of \<^verbatim>\<open>funnel_analyzer.py\<close> use to render ranks and counts.
\<close>

fun join :: "string \<Rightarrow> string list \<Rightarrow> string" where
  "join sep [] = []"
| "join sep [x] = x"
| "join sep (x # y # ys) = x @ sep @ join sep (y # ys)"

definition digit_char :: "nat \<Rightarrow> char" where
  "digit_char d = char_of (48 + d)"

function str_nat :: "nat \<Rightarrow> string" where
  "str_nat n = (if n < 10 then [digit_char n] else str_nat (n div 10) @ [digit_char (n mod 10)])"
  by pat_completeness auto
termination
  by (relation "measure id") auto

definition str_int :: "int \<Rightarrow> string" where
  "str_int i = (if i < 0 then CHR ''-'' # str_nat (nat (- i)) else str_nat (nat i))"

section \<open>Data model\<close>

text \<open>
  A step is the dict of \<^verbatim>\<open>config['steps']\<close>: the keys \<^verbatim>\<open>rank\<close>,
  \<^verbatim>\<open>screen_name\<close> and \<^verbatim>\<open>loaded_events\<close> of the configuration, and the two keys
  \<^verbatim>\<open>original_events\<close> and \<^verbatim>\<open>event_count\<close> that
  \<^verbatim>\<open>check_event_availability\<close> attaches (\<open>None\<close> while the key is absent).
\<close>

record step =
  rank :: int
  screen_name :: string
  loaded_events :: "string list"
  original_events :: "string list option"
  event_count :: "int option"

text \<open>
  The configuration dict. A key that is absent from the dict is \<open>None\<close>; the first twelve
  fields are the ones \<^verbatim>\<open>validate_config\<close> requires.
\<close>

record config =
  funnel_name :: "string option"
  project_id :: "string option"
  source_dataset :: "string option"
  destination_dataset :: "string option"
  data_source :: "string option"
  user_id_column :: "string option"
  session_id_column :: "string option"
  event_column :: "string option"
  timestamp_column :: "string option"
  partition_column :: "string option"
  time_period_days :: "int option"
  steps :: "step list option"
  filters :: "string list option"
  app_version_extraction :: "string option"
  os_extraction :: "string option"
  entry_point_extraction :: "string option"
  user_base_table :: "string option"
  user_segmentation_fields :: "string list option"
  create_percentiles_table :: "bool option"
  percentiles_table_name :: "string option"

datatype error = ValueError string | KeyError string

section \<open>validate_config\<close>

text \<open>
  \<^verbatim>\<open>required_fields\<close> in the order of the source, each with its presence test
  (\<^verbatim>\<open>field not in config\<close>).
\<close>

definition required_fields :: "(string \<times> (config \<Rightarrow> bool)) list" where
  "required_fields =
    [(''funnel_name'', \<lambda>c. funnel_name c \<noteq> None),
     (''project_id'', \<lambda>c. project_id c \<noteq> None),
     (''source_dataset'', \<lambda>c. source_dataset c \<noteq> None),
     (''destination_dataset'', \<lambda>c. destination_dataset c \<noteq> None),
     (''data_source'', \<lambda>c. data_source c \<noteq> None),
     (''user_id_column'', \<lambda>c. user_id_column c \<noteq> None),
     (''session_id_column'', \<lambda>c. session_id_column c \<noteq> None),
     (''event_column'', \<lambda>c. event_column c \<noteq> None),
     (''timestamp_column'', \<lambda>c. timestamp_column c \<noteq> None),
     (''partition_column'', \<lambda>c. partition_column c \<noteq> None),
     (''time_period_days'', \<lambda>c. time_period_days c \<noteq> None),
     (''steps'', \<lambda>c. steps c \<noteq> None)]"

fun check_fields :: "(string \<times> (config \<Rightarrow> bool)) list \<Rightarrow> config \<Rightarrow> error option" where
  "check_fields [] c = None"
| "check_fields ((name, present) # fs) c =
     (if \<not> present c then Some (ValueError (''Missing required field: '' @ name))
      else check_fields fs c)"

definition validate_config :: "config \<Rightarrow> error + bool" where
  "validate_config c =
     (case check_fields required_fields c of
        Some e \<Rightarrow> Inl e
      | None \<Rightarrow>
          (case steps c of
             None \<Rightarrow> Inl (KeyError ''steps'')
           | Some ss \<Rightarrow>
               if length ss = 0 then Inl (ValueError ''Steps must be a non-empty array'')
               else Inr True))"

section \<open>check_event_availability\<close>

text \<open>
  The rows of the availability query (\<^verbatim>\<open>results = list(query_job)\<close>) are an input:
  one \<open>(event, count)\<close> pair per row. \<^verbatim>\<open>available_events\<close> is the dict comprehension
  over them, a later row overwriting an earlier one with the same event.
\<close>

fun available_events :: "(string \<times> int) list \<Rightarrow> (string \<rightharpoonup> int)" where
  "available_events [] = Map.empty"
| "available_events ((e, n) # rows) = (\<lambda>k. case available_events rows k of
                                               Some v \<Rightarrow> Some v
                                             | None \<Rightarrow> if k = e then Some n else None)"

definition available_step_events :: "(string \<rightharpoonup> int) \<Rightarrow> step \<Rightarrow> string list" where
  "available_step_events av s = filter (\<lambda>event. av event \<noteq> None) (loaded_events s)"

definition count_of :: "(string \<rightharpoonup> int) \<Rightarrow> string \<Rightarrow> int" where
  "count_of av event = (case av event of Some n \<Rightarrow> n | None \<Rightarrow> 0)"

text \<open>
  The first loop walks \<^verbatim>\<open>config['steps']\<close>. A step with an available event is updated
  in place and appended to \<^verbatim>\<open>filtered_steps\<close>; the list \<^verbatim>\<open>filtered_steps\<close> holds
  the same dict objects as the configuration. The model keeps the configuration's list as
  the store and marks with \<open>True\<close> the objects that \<^verbatim>\<open>filtered_steps\<close> refers to.
  The steps of a configuration are distinct objects (a JSON document or the embedded
  literal).
\<close>

fun filter_loop :: "(string \<rightharpoonup> int) \<Rightarrow> step list \<Rightarrow> (step \<times> bool) list" where
  "filter_loop av [] = []"
| "filter_loop av (s # ss) =
     (let step_events = loaded_events s;
          available = available_step_events av s
      in if available \<noteq> []
         then (s\<lparr>loaded_events := available,
                 original_events := Some step_events,
                 event_count := Some (sum_list (map (count_of av) available))\<rparr>, True)
              # filter_loop av ss
         else (s, False) # filter_loop av ss)"

text \<open>
  The second loop: \<^verbatim>\<open>for i, step in enumerate(filtered_steps): step['rank'] = i + 1\<close>.
  \<open>i\<close> counts the marked objects seen so far.
\<close>

fun rerank_loop :: "int \<Rightarrow> (step \<times> bool) list \<Rightarrow> (step \<times> bool) list" where
  "rerank_loop i [] = []"
| "rerank_loop i ((s, kept) # ps) =
     (if kept then (s\<lparr>rank := i + 1\<rparr>, True) # rerank_loop (i + 1) ps
      else (s, False) # rerank_loop i ps)"

text \<open>
  The result is the configuration as the call leaves it, and the returned
  \<^verbatim>\<open>filtered_steps\<close>. The query text reads \<^verbatim>\<open>data_source\<close>,
  \<^verbatim>\<open>partition_column\<close> and \<^verbatim>\<open>time_period_days\<close>, so a configuration without
  them raises \<^verbatim>\<open>KeyError\<close> before the query runs.
\<close>

definition check_event_availability ::
  "config \<Rightarrow> (string \<times> int) list \<Rightarrow> error + (config \<times> step list)" where
  "check_event_availability c results =
     (case steps c of
        None \<Rightarrow> Inl (KeyError ''steps'')
      | Some ss \<Rightarrow>
          if data_source c = None then Inl (KeyError ''data_source'')
          else if partition_column c = None then Inl (KeyError ''partition_column'')
          else if time_period_days c = None then Inl (KeyError ''time_period_days'')
          else
            let store = rerank_loop 0 (filter_loop (available_events results) ss)
            in Inr (c\<lparr>steps := Some (map fst store)\<rparr>, map fst (filter snd store)))"

section \<open>generate_standard_funnel_sql: the SQL text\<close>

text \<open>
  The single quote character. The source interpolates screen names and event names between
  single quotes with no escaping.
\<close>

definition sq :: string where
  "sq = [CHR 0x27]"

text \<open>\<^verbatim>\<open>events_list = "', '".join(events)\<close>\<close>

definition events_list :: "string list \<Rightarrow> string" where
  "events_list events = join (sq @ '', '' @ sq) events"

text \<open>
  The loop that builds \<^verbatim>\<open>step_cases\<close> and \<^verbatim>\<open>screen_name_cases\<close>, one entry per
  filtered step, and the two joined strings.
\<close>

definition step_cases :: "step list \<Rightarrow> string list" where
  "step_cases filtered_steps =
     map (\<lambda>s. concat [''when event in ('', sq, events_list (loaded_events s), sq, '') then '',
                        str_int (rank s)]) filtered_steps"

definition screen_name_cases :: "step list \<Rightarrow> string list" where
  "screen_name_cases filtered_steps =
     map (\<lambda>s. concat [''when event in ('', sq, events_list (loaded_events s), sq, '') then '',
                        sq, screen_name s, sq]) filtered_steps"

definition step_case :: "step list \<Rightarrow> string" where
  "step_case filtered_steps = join ''\<newline>        '' (step_cases filtered_steps)"

definition screen_name_case :: "step list \<Rightarrow> string" where
  "screen_name_case filtered_steps = join ''\<newline>        '' (screen_name_cases filtered_steps)"

text \<open>Python truthiness of \<^verbatim>\<open>config.get(key)\<close>: present and not empty.\<close>

definition truthy :: "'a list option \<Rightarrow> bool" where
  "truthy v = (case v of None \<Rightarrow> False | Some x \<Rightarrow> x \<noteq> [])"

definition replace_colon :: "string \<Rightarrow> string" where
  "replace_colon p = map (\<lambda>ch. if ch = CHR '':'' then CHR ''.'' else ch) p"

text \<open>
  One entry of \<^verbatim>\<open>extraction_fields\<close>; the source writes the same \<^verbatim>\<open>if\<close> three
  times, for \<^verbatim>\<open>app_version\<close>, \<^verbatim>\<open>operating_system\<close> and \<^verbatim>\<open>entry_point\<close>.
\<close>

definition extraction_field :: "string option \<Rightarrow> string \<Rightarrow> string" where
  "extraction_field v name =
     (case v of
        None \<Rightarrow> ''null as '' @ name
      | Some p \<Rightarrow>
          if p \<noteq> []
          then concat [''SAFE_CAST(JSON_EXTRACT_SCALAR(properties, '', sq, ''$.'', replace_colon p,
                       sq, '') AS STRING) as '', name]
          else ''null as '' @ name)"

definition extraction_fields :: "config \<Rightarrow> string list" where
  "extraction_fields c =
     [extraction_field (app_version_extraction c) ''app_version'',
      extraction_field (os_extraction c) ''operating_system'',
      extraction_field (entry_point_extraction c) ''entry_point'']"

definition user_seg_fields :: "config \<Rightarrow> string list" where
  "user_seg_fields c =
     (if truthy (user_base_table c) \<and> truthy (user_segmentation_fields c)
      then (case user_segmentation_fields c of
              Some seg \<Rightarrow> map (\<lambda>field. ''u.'' @ field) seg
            | None \<Rightarrow> [])
      else [''null as current_tier'', ''null as affluence_v11_flag'', ''null as gender'',
            ''null as income_range''])"

definition user_join :: "config \<Rightarrow> string \<Rightarrow> string" where
  "user_join c user_id =
     (case user_base_table c of
        None \<Rightarrow> []
      | Some t \<Rightarrow>
          if t \<noteq> []
          then concat [''left join `'', t, ''` u on e.'', user_id, '' = u.'', user_id]
          else [])"

text \<open>
  \<^verbatim>\<open>filter_clause\<close>: built from the loaded events of the filtered steps only. The
  function does not read \<^verbatim>\<open>config['filters']\<close>.
\<close>

definition filter_clause :: "step list \<Rightarrow> string" where
  "filter_clause filtered_steps =
     concat [''event in ('', sq, events_list (concat (map loaded_events filtered_steps)), sq, '')'']"

text \<open>
  One entry of \<^verbatim>\<open>funnel_completion_cases\<close>, for the step at index \<open>i\<close> of
  \<^verbatim>\<open>filtered_steps\<close>.
\<close>

definition funnel_completion_case :: "nat \<Rightarrow> step \<Rightarrow> step list \<Rightarrow> string" where
  "funnel_completion_case i s filtered_steps =
    (let step_num = rank s; screen_name_v = screen_name s in concat [
       ''\<newline>'',
       ''        -- Step '', str_int step_num, '': '', screen_name_v, ''\<newline>'',
       ''        select \<newline>'',
       ''            actor_id,\<newline>'',
       ''            session_id,\<newline>'',
       ''            '', sq, screen_name_v, sq, '' as screen_name,\<newline>'',
       ''            case \<newline>'',
       ''                when step_stage = '', str_int step_num, '' then screen_entry_time\<newline>'',
       ''                else timestamp_sub(screen_entry_time, interval '', str_int (step_num - 1), '' minute)\<newline>'',
       ''            end as screen_entry_time,\<newline>'',
       ''            '', str_int step_num, '' as step_stage,\<newline>'',
       ''            current_tier, \<newline>'',
       ''            affluence_v11_flag,\<newline>'',
       ''            gender,\<newline>'',
       ''            income_range,\<newline>'',
       ''            app_version,\<newline>'',
       ''            operating_system,\<newline>'',
       ''            entry_point,\<newline>'',
       ''            case \<newline>'',
       ''                when step_stage = '', str_int step_num, '' then previous_screen_name\<newline>'',
       ''                when '', str_int step_num, '' = 1 then null\<newline>'',
       ''                else '', sq, (if i > 0 then screen_name (filtered_steps ! (i - 1)) else ''null''), sq, ''\<newline>'',
       ''            end as previous_screen_name,\<newline>'',
       ''            case \<newline>'',
       ''                when step_stage = '', str_int step_num, '' then screen_success_time\<newline>'',
       ''                when '', str_int step_num, '' = '', str_int (int (length filtered_steps)), '' then null\<newline>'',
       ''                else timestamp_add(screen_entry_time, interval 1 minute)\<newline>'',
       ''            end as screen_success_time,\<newline>'',
       ''            case \<newline>'',
       ''                when step_stage = '', str_int step_num, '' then is_conversion_session\<newline>'',
       ''                when '', str_int step_num, '' = '', str_int (int (length filtered_steps)), '' then 0\<newline>'',
       ''                else 1\<newline>'',
       ''            end as is_conversion_session,\<newline>'',
       ''            case \<newline>'',
       ''                when step_stage = '', str_int step_num, '' then time_to_convert\<newline>'',
       ''                when '', str_int step_num, '' = '', str_int (int (length filtered_steps)), '' then null\<newline>'',
       ''                else 60\<newline>'',
       ''            end as time_to_convert\<newline>'',
       ''        from funnel_clean\<newline>'',
       ''        where step_stage >= '', str_int step_num])"

definition funnel_completion_cases :: "step list \<Rightarrow> string list" where
  "funnel_completion_cases filtered_steps =
     map (\<lambda>(i, s). funnel_completion_case i s filtered_steps) (enumerate 0 filtered_steps)"

definition funnel_completion_sql :: "step list \<Rightarrow> string" where
  "funnel_completion_sql filtered_steps =
     join ''\<newline>union all\<newline>'' (funnel_completion_cases filtered_steps)"

text \<open>
  The \<^verbatim>\<open>where\<close> clause of \<^verbatim>\<open>funnel_base\<close> as the list of its conditions, in the
  order of the template; the template joins them with \<^verbatim>\<open>and\<close>.
\<close>

definition where_conditions :: "step list \<Rightarrow> string \<Rightarrow> string \<Rightarrow> string \<Rightarrow> int \<Rightarrow> string list" where
  "where_conditions filtered_steps partition_c timestamp_c session_id_c days =
     [filter_clause filtered_steps,
      concat [partition_c, '' >= date_sub(current_date(), interval '', str_int days, '' day)''],
      concat [''date(e.'', timestamp_c, '') >= date_sub(current_date(), interval '', str_int days, '' day)''],
      concat [session_id_c, '' is not null'']]"

definition funnel_base_sql ::
  "config \<Rightarrow> step list \<Rightarrow> string \<Rightarrow> string \<Rightarrow> string \<Rightarrow> string \<Rightarrow> string \<Rightarrow> string \<Rightarrow> int \<Rightarrow> string" where
  "funnel_base_sql c filtered_steps user_id session_id_c event_c timestamp_c source partition_c days =
     concat [
       ''with funnel_base as (\<newline>'',
       ''    select \<newline>'',
       ''        e.'', user_id, '' as actor_id,\<newline>'',
       ''        '', session_id_c, '' as session_id,\<newline>'',
       ''        e.'', event_c, '' as event,\<newline>'',
       ''        e.'', timestamp_c, '' as screen_entry_time,\<newline>'',
       ''        e.properties,\<newline>'',
       ''        -- User segmentation fields\<newline>'',
       ''        '', join '', '' (user_seg_fields c), '',\<newline>'',
       ''        -- Extraction fields\<newline>'',
       ''        '', join '', '' (extraction_fields c), '',\<newline>'',
       ''        -- Step mapping (only for events that exist)\<newline>'',
       ''        case \<newline>'',
       ''        '', step_case filtered_steps, ''\<newline>'',
       ''        else null\<newline>'',
       ''        end as step_stage,\<newline>'',
       ''        case \<newline>'',
       ''        '', screen_name_case filtered_steps, ''\<newline>'',
       ''        else e.'', event_c, ''\<newline>'',
       ''        end as screen_name\<newline>'',
       ''    from `'', source, ''` e\<newline>'',
       ''    '', user_join c user_id, ''\<newline>'',
       ''    where '',
       join ''\<newline>    and ''
         (where_conditions filtered_steps partition_c timestamp_c session_id_c days),
       ''\<newline>'',
       '')\<newline>'']"

definition funnel_clean_sql :: string where
  "funnel_clean_sql =
     concat [
       '',funnel_clean as (\<newline>'',
       ''    select \<newline>'',
       ''        actor_id,\<newline>'',
       ''        session_id,\<newline>'',
       ''        screen_name,\<newline>'',
       ''        screen_entry_time,\<newline>'',
       ''        step_stage,\<newline>'',
       ''        current_tier,\<newline>'',
       ''        affluence_v11_flag,\<newline>'',
       ''        gender,\<newline>'',
       ''        income_range,\<newline>'',
       ''        app_version,\<newline>'',
       ''        operating_system,\<newline>'',
       ''        entry_point,\<newline>'',
       ''        -- Previous screen name\<newline>'',
       ''        lag(screen_name) over (partition by actor_id, session_id order by screen_entry_time) as previous_screen_name,\<newline>'',
       ''        -- Next screen entry time\<newline>'',
       ''        lead(screen_entry_time) over (partition by actor_id, session_id order by screen_entry_time) as screen_success_time,\<newline>'',
       ''        -- Is conversion session (has next step)\<newline>'',
       ''        case when lead(screen_entry_time) over (partition by actor_id, session_id order by screen_entry_time) is not null then 1 else 0 end as is_conversion_session,\<newline>'',
       ''        -- Time to convert\<newline>'',
       ''        case when lead(screen_entry_time) over (partition by actor_id, session_id order by screen_entry_time) is not null \<newline>'',
       ''             then timestamp_diff(lead(screen_entry_time) over (partition by actor_id, session_id order by screen_entry_time), screen_entry_time, second) \<newline>'',
       ''             else null end as time_to_convert\<newline>'',
       ''    from funnel_base\<newline>'',
       ''    where step_stage is not null\<newline>'',
       ''    qualify row_number() over (partition by actor_id, session_id, screen_name, step_stage order by step_stage desc, screen_entry_time desc) = 1\<newline>'',
       '')\<newline>'']"

definition funnel_completed_sql :: "step list \<Rightarrow> string" where
  "funnel_completed_sql filtered_steps =
     concat [
       '',funnel_completed as (\<newline>'',
       ''    -- Apply funnel completion logic: if user reaches step N, include them in steps 1 to N-1\<newline>'',
       funnel_completion_sql filtered_steps, ''\<newline>'',
       '')\<newline>'']"

text \<open>
  The final projection as the list of its select items, an expression and its alias
  (\<open>None\<close> for a bare column); the template writes one item per line.
\<close>

type_synonym select_item = "string \<times> string option"

definition render_item :: "select_item \<Rightarrow> string" where
  "render_item it = (case snd it of None \<Rightarrow> fst it | Some a \<Rightarrow> fst it @ '' as '' @ a)"


definition final_projection :: "select_item list" where
  "final_projection =
     [(''actor_id'', None),
      (''current_tier'', None),
      (''affluence_v11_flag'', None),
      (''gender'', None),
      (''income_range'', None),
      (''session_id'', None),
      (''app_version'', None),
      (''operating_system'', None),
      (''entry_point'', None),
      (''screen_name'', None),
      (''screen_entry_time'', None),
      (''cast(step_stage as string)'', Some ''step''),
      (''step_stage'', None),
      (''previous_screen_name'', None),
      (''screen_success_time'', None),
      (''is_conversion_session'', None),
      (''time_to_convert'', None),
      (''current_timestamp()'', Some ''table_created_at'')]"

definition final_select_sql :: string where
  "final_select_sql =
     concat [
       ''select \<newline>'',
       ''    '', join '',\<newline>    '' (map render_item final_projection), ''\<newline>'',
       ''from funnel_completed\<newline>'',
       ''order by actor_id, session_id, step_stage, screen_entry_time\<newline>'',
       '')\<newline>'']"

text \<open>
  \<^verbatim>\<open>generate_standard_funnel_sql\<close>. The function first runs
  \<^verbatim>\<open>check_event_availability\<close>, which mutates the configuration, and raises
  \<^verbatim>\<open>ValueError\<close> when no step is left. A key the template reads and the dict lacks
  raises \<^verbatim>\<open>KeyError\<close>.
\<close>

definition generate_standard_funnel_sql :: "config \<Rightarrow> (string \<times> int) list \<Rightarrow> error + string" where
  "generate_standard_funnel_sql config0 results =
     (case check_event_availability config0 results of
        Inl e \<Rightarrow> Inl e
      | Inr (c, filtered_steps) \<Rightarrow>
          if filtered_steps = []
          then Inl (ValueError ''No steps with available events found. Check your event names.'')
          else if truthy (user_base_table c) \<and> user_id_column c = None
          then Inl (KeyError ''user_id_column'')
          else
           (case project_id c of None \<Rightarrow> Inl (KeyError ''project_id'') | Some project \<Rightarrow>
           (case destination_dataset c of None \<Rightarrow> Inl (KeyError ''destination_dataset'') | Some dataset \<Rightarrow>
           (case user_id_column c of None \<Rightarrow> Inl (KeyError ''user_id_column'') | Some user_id \<Rightarrow>
           (case session_id_column c of None \<Rightarrow> Inl (KeyError ''session_id_column'') | Some session_id_c \<Rightarrow>
           (case event_column c of None \<Rightarrow> Inl (KeyError ''event_column'') | Some event_c \<Rightarrow>
           (case timestamp_column c of None \<Rightarrow> Inl (KeyError ''timestamp_column'') | Some timestamp_c \<Rightarrow>
           (case data_source c of None \<Rightarrow> Inl (KeyError ''data_source'') | Some source \<Rightarrow>
           (case partition_column c of None \<Rightarrow> Inl (KeyError ''partition_column'') | Some partition_c \<Rightarrow>
           (case time_period_days c of None \<Rightarrow> Inl (KeyError ''time_period_days'') | Some days \<Rightarrow>
              Inr (concat [
                ''\<newline>'',
                ''-- Create STANDARD_FUNNEL table with exact schema\<newline>'',
                ''-- Using funnel completion logic to fill in missing steps\<newline>'',
                ''create or replace table `'', project, ''.'', dataset, ''.STANDARD_FUNNEL` as (\<newline>'',
                funnel_base_sql c filtered_steps user_id session_id_c event_c timestamp_c source
                  partition_c days,
                funnel_clean_sql,
                funnel_completed_sql filtered_steps,
                final_select_sql])))))))))))"

section \<open>The final projection of the unified-loans variant\<close>

text \<open>
  The select items of the final projection that \<^verbatim>\<open>generate_standard_funnel_sql\<close> of
  \<^verbatim>\<open>unified_loans_activities_funnel_analyzer.py\<close> writes (lines 342 to 365).
\<close>

definition unified_final_projection :: "select_item list" where
  "unified_final_projection =
     [(''actor_id'', None),
      (''null'', Some ''current_tier''),
      (''null'', Some ''affluence_v11_flag''),
      (''null'', Some ''gender''),
      (''null'', Some ''income_range''),
      (''session_id'', None),
      (''null'', Some ''app_version''),
      (''null'', Some ''operating_system''),
      (''null'', Some ''entry_point''),
      (''screen_name'', None),
      (''screen_entry_time'', None),
      (''cast(step_stage as string)'', Some ''step''),
      (''step_stage'', None),
      (''previous_screen_name'', None),
      (''screen_success_time'', None),
      (''is_conversion_session'', None),
      (''time_to_convert'', None),
      (''current_timestamp()'', Some ''table_created_at''),
      (''COUNT(*) OVER (PARTITION BY step_stage)'', Some ''total_users''),
      (''COUNT(*) OVER (PARTITION BY 1)'', Some ''total_users_first_step'')]"

text \<open>
  The text of that projection, from \<^verbatim>\<open>select\<close> to the end of the statement: one
  select item per line, and a comment line before the last two items.
\<close>

definition unified_final_select_sql :: string where
  "unified_final_select_sql =
     concat [
       ''select \<newline>'',
       ''    '', join '',\<newline>    '' (map render_item (take 18 unified_final_projection)), '',\<newline>'',
       ''    -- Add aggregated fields for Tableau\<newline>'',
       ''    '', join '',\<newline>    '' (map render_item (drop 18 unified_final_projection)), ''\<newline>'',
       ''from funnel_completed\<newline>'',
       ''order by actor_id, session_id, step_stage, screen_entry_time\<newline>'',
       '')\<newline>'']"

section \<open>generate_percentiles_sql\<close>

text \<open>
  The two \<^verbatim>\<open>CASE\<close> expressions of the final \<^verbatim>\<open>SELECT\<close> are literals of the source:
  each line names a screen, its ordered label and its step order. They are the same six
  lines whatever configuration the function receives.
\<close>

definition percentile_cases :: "(string \<times> string \<times> int) list" where
  "percentile_cases =
     [(''Tiering - Overview screen'', ''1 - Tiering - Overview screen'', 1),
      (''Tiering - Add money to Fi'', ''2 - Tiering - Add money to Fi'', 2),
      (''Add funds - Enter amount'', ''3 - Add funds - Enter amount'', 3),
      (''Add funds - Payment options'', ''4 - Add funds - Payment options'', 4),
      (''Add funds - Payment success'', ''5 - Add funds - Payment success'', 5),
      (''Tiering - Upgrade screen'', ''6 - Tiering - Upgrade screen'', 6)]"

definition ordered_screen_name_when :: "string \<times> string \<times> int \<Rightarrow> string" where
  "ordered_screen_name_when w =
     concat [''    WHEN screen_name = '', sq, fst w, sq, '' THEN '', sq, fst (snd w), sq, ''\<newline>'']"

definition step_order_when :: "string \<times> string \<times> int \<Rightarrow> string" where
  "step_order_when w =
     concat [''    WHEN screen_name = '', sq, fst w, sq, '' THEN '', str_int (snd (snd w)), ''\<newline>'']"

definition generate_percentiles_sql :: "config \<Rightarrow> error + string" where
  "generate_percentiles_sql c =
     (case project_id c of None \<Rightarrow> Inl (KeyError ''project_id'') | Some project \<Rightarrow>
     (case destination_dataset c of None \<Rightarrow> Inl (KeyError ''destination_dataset'') | Some dataset \<Rightarrow>
     (case percentiles_table_name c of None \<Rightarrow> Inl (KeyError ''percentiles_table_name'') | Some table_name \<Rightarrow>
       Inr (concat [
       ''\<newline>'',
       ''CREATE OR REPLACE TABLE `'', project, ''.'', dataset, ''.'', table_name, ''` AS\<newline>'',
       ''WITH\<newline>'',
       ''  ordered_events AS (\<newline>'',
       ''    SELECT\<newline>'',
       ''      actor_id,\<newline>'',
       ''      step_stage,\<newline>'',
       ''      screen_name,\<newline>'',
       ''      screen_entry_time,\<newline>'',
       ''      LEAD(screen_entry_time) OVER (\<newline>'',
       ''        PARTITION BY actor_id\<newline>'',
       ''        ORDER BY screen_entry_time -- Order by time for consecutive events\<newline>'',
       ''      ) AS next_screen_entry_time,\<newline>'',
       ''      LEAD(step_stage) OVER (\<newline>'',
       ''        PARTITION BY actor_id\<newline>'',
       ''        ORDER BY screen_entry_time\<newline>'',
       ''      ) AS next_step_stage\<newline>'',
       ''    FROM\<newline>'',
       ''      `'', project, ''.'', dataset, ''.STANDARD_FUNNEL`\<newline>'',
       ''  ),\<newline>'',
       ''  calculated_times AS (\<newline>'',
       ''    SELECT\<newline>'',
       ''      actor_id,\<newline>'',
       ''      step_stage,\<newline>'',
       ''      screen_name,\<newline>'',
       ''      next_step_stage, -- Keep next_step_stage to understand the transition\<newline>'',
       ''      TIMESTAMP_DIFF(next_screen_entry_time, screen_entry_time, SECOND) AS time_to_next_step_seconds\<newline>'',
       ''    FROM\<newline>'',
       ''      ordered_events\<newline>'',
       ''    WHERE\<newline>'',
       ''      next_screen_entry_time IS NOT NULL AND TIMESTAMP_DIFF(next_screen_entry_time, screen_entry_time, SECOND) >= 0 -- Ensure non-negative time\<newline>'',
       ''  ),\<newline>'',
       ''  aggregated_times AS (\<newline>'',
       ''    SELECT\<newline>'',
       ''      screen_name,\<newline>'',
       ''      APPROX_QUANTILES(time_to_next_step_seconds, 100)[OFFSET(25)] AS percentile_25,\<newline>'',
       ''      APPROX_QUANTILES(time_to_next_step_seconds, 100)[OFFSET(50)] AS percentile_50,\<newline>'',
       ''      APPROX_QUANTILES(time_to_next_step_seconds, 100)[OFFSET(75)] AS percentile_75\<newline>'',
       ''    FROM\<newline>'',
       ''      calculated_times\<newline>'',
       ''    GROUP BY\<newline>'',
       ''      screen_name\<newline>'',
       ''  )\<newline>'',
       ''SELECT\<newline>'',
       ''  screen_name,\<newline>'',
       ''  CASE \<newline>'',
       concat (map ordered_screen_name_when percentile_cases),
       ''    ELSE screen_name\<newline>'',
       ''  END AS ordered_screen_name,\<newline>'',
       ''  CASE \<newline>'',
       concat (map step_order_when percentile_cases),
       ''    ELSE 999\<newline>'',
       ''  END AS step_order,\<newline>'',
       ''  percentile_25,\<newline>'',
       ''  percentile_50,\<newline>'',
       ''  percentile_75\<newline>'',
       ''FROM\<newline>'',
       ''  aggregated_times\<newline>'',
       ''ORDER BY\<newline>'',
       ''  step_order\<newline>'']))))"

section \<open>The embedded configuration\<close>

text \<open>\<^verbatim>\<open>FUNNEL_CONFIG\<close> of \<^verbatim>\<open>funnel_analyzer.py\<close>.\<close>

definition mk_step :: "int \<Rightarrow> string \<Rightarrow> string list \<Rightarrow> step" where
  "mk_step r n es =
     \<lparr>rank = r, screen_name = n, loaded_events = es, original_events = None, event_count = None\<rparr>"

definition FUNNEL_CONFIG :: config where
  "FUNNEL_CONFIG =
     \<lparr>funnel_name = Some ''Tiering and Add Funds Funnel'',
      project_id = Some ''common-tech-434709'',
      source_dataset = Some ''events'',
      destination_dataset = Some ''sandbox'',
      data_source = Some ''common-tech-434709.events.events'',
      user_id_column = Some ''user_id'',
      session_id_column = Some ''JSON_EXTRACT_SCALAR(properties, '$.session_id')'',
      event_column = Some ''event'',
      timestamp_column = Some ''timestamp'',
      partition_column = Some ''date'',
      time_period_days = Some 30,
      steps = Some
        [mk_step 1 ''Tiering - Overview screen'' [''LoadedTierOverviewScreen''],
         mk_step 2 ''Tiering - Add money to Fi'' [''ClickedJoinTierButton''],
         mk_step 3 ''Add funds - Enter amount'' [''ClickedAddFundsButton''],
         mk_step 4 ''Add funds - Payment options'' [''ClickedAddFundCtaPO''],
         mk_step 5 ''Add funds - Payment success'' [''BalanceUpdateEvent''],
         mk_step 6 ''Tiering - Upgrade screen'' [''UserUpgradedTiering'']],
      filters = Some
        [''event in ('LoadedTierOverviewScreen', 'ClickedJoinTierButton', 'ClickedAddFundsButton', 'ClickedAddFundCtaPO', 'BalanceUpdateEvent', 'UserUpgradedTiering')''],
      app_version_extraction = None,
      os_extraction = None,
      entry_point_extraction = None,
      user_base_table = None,
      user_segmentation_fields = None,
      create_percentiles_table = Some True,
      percentiles_table_name = Some ''percentiles_by_stage''\<rparr>"

section \<open>The tables the generated SQL defines\<close>

text \<open>
  What the statement computes, read off the generated text clause by clause. A table is
  the list of its rows, in no particular order. A timestamp is a number of microseconds; a
  nullable column is an \<open>option\<close>.
\<close>

type_synonym timestamp = int

definition timestamp_sub :: "timestamp \<Rightarrow> int \<Rightarrow> timestamp" where
  "timestamp_sub t minutes = t - minutes * 60000000"

definition timestamp_add :: "timestamp \<Rightarrow> int \<Rightarrow> timestamp" where
  "timestamp_add t minutes = t + minutes * 60000000"

text \<open>
  The generator pastes screen names and event names between single quotes and escapes
  nothing. The pasted text is a string literal that denotes the name only when the name
  holds no single quote (which ends the literal), no backslash (which starts an escape) and
  no line break (which a quoted literal may not hold, and which ends the comment line
  that also carries the screen name). The reading of the statement below is the reading
  for such names; for any other name the statement is malformed or is another statement,
  and the tables below are \<open>None\<close>.
\<close>

definition literal_safe :: "string \<Rightarrow> bool" where
  "literal_safe name =
     list_all (\<lambda>ch. ch \<noteq> CHR 0x27 \<and> ch \<noteq> CHR 0x5C \<and> ch \<noteq> CHR 0x0A \<and> ch \<noteq> CHR 0x0D) name"

definition literals_safe :: "step list \<Rightarrow> bool" where
  "literals_safe filtered_steps =
     list_all (\<lambda>s. literal_safe (screen_name s) \<and> list_all literal_safe (loaded_events s))
       filtered_steps"

text \<open>
  The two \<^verbatim>\<open>case\<close> expressions of \<^verbatim>\<open>funnel_base\<close>, built from \<^verbatim>\<open>step_cases\<close> and
  \<^verbatim>\<open>screen_name_cases\<close>, for names that are safe in a literal: the first \<^verbatim>\<open>when\<close>
  whose event list holds the event decides; \<^verbatim>\<open>else null\<close> for the step stage,
  \<^verbatim>\<open>else\<close> the event itself for the screen name. \<open>funnel_base_labels\<close> is the pair
  of the two, and \<open>None\<close> when a pasted name is not safe.
\<close>

fun step_stage_case :: "step list \<Rightarrow> string \<Rightarrow> int option" where
  "step_stage_case [] event = None"
| "step_stage_case (s # ss) event =
     (if event \<in> set (loaded_events s) then Some (rank s) else step_stage_case ss event)"

fun screen_name_case_of :: "step list \<Rightarrow> string \<Rightarrow> string" where
  "screen_name_case_of [] event = event"
| "screen_name_case_of (s # ss) event =
     (if event \<in> set (loaded_events s) then screen_name s else screen_name_case_of ss event)"

definition funnel_base_labels :: "step list \<Rightarrow> string \<Rightarrow> (int option \<times> string) option" where
  "funnel_base_labels filtered_steps event =
     (if literals_safe filtered_steps
      then Some (step_stage_case filtered_steps event, screen_name_case_of filtered_steps event)
      else None)"

text \<open>A row of \<^verbatim>\<open>funnel_clean\<close> and of \<^verbatim>\<open>funnel_completed\<close> (the same columns).\<close>

record funnel_row =
  actor_id :: string
  session_id :: string
  screen_name :: string
  screen_entry_time :: timestamp
  step_stage :: int
  current_tier :: "string option"
  affluence_v11_flag :: "string option"
  gender :: "string option"
  income_range :: "string option"
  app_version :: "string option"
  operating_system :: "string option"
  entry_point :: "string option"
  previous_screen_name :: "string option"
  screen_success_time :: "timestamp option"
  is_conversion_session :: int
  time_to_convert :: "int option"

text \<open>
  The \<^verbatim>\<open>select\<close> of one entry of \<^verbatim>\<open>funnel_completion_cases\<close>, applied to a row of
  \<^verbatim>\<open>funnel_clean\<close>: the step at index \<open>i\<close> of \<^verbatim>\<open>filtered_steps\<close>, with
  \<^verbatim>\<open>step_num = step['rank']\<close>. The two pasted literals (the screen name of the step
  and of the step before it) are read as the names, which is their value for names that
  are safe in a literal; \<open>funnel_completed\<close> below uses the select for such names only.
\<close>

definition funnel_completion_select :: "nat \<Rightarrow> step \<Rightarrow> step list \<Rightarrow> funnel_row \<Rightarrow> funnel_row" where
  "funnel_completion_select i s filtered_steps r =
    (let step_num = rank s; n = int (length filtered_steps) in
     \<lparr>actor_id = actor_id r,
      session_id = session_id r,
      screen_name = step.screen_name s,
      screen_entry_time =
        (if step_stage r = step_num then screen_entry_time r
         else timestamp_sub (screen_entry_time r) (step_num - 1)),
      step_stage = step_num,
      current_tier = current_tier r,
      affluence_v11_flag = affluence_v11_flag r,
      gender = gender r,
      income_range = income_range r,
      app_version = app_version r,
      operating_system = operating_system r,
      entry_point = entry_point r,
      previous_screen_name =
        (if step_stage r = step_num then previous_screen_name r
         else if step_num = 1 then None
         else Some (if i > 0 then step.screen_name (filtered_steps ! (i - 1)) else ''null'')),
      screen_success_time =
        (if step_stage r = step_num then screen_success_time r
         else if step_num = n then None
         else Some (timestamp_add (screen_entry_time r) 1)),
      is_conversion_session =
        (if step_stage r = step_num then is_conversion_session r
         else if step_num = n then 0
         else 1),
      time_to_convert =
        (if step_stage r = step_num then time_to_convert r
         else if step_num = n then None
         else Some 60)\<rparr>)"

text \<open>
  One entry of \<^verbatim>\<open>funnel_completion_cases\<close> as a table:
  \<^verbatim>\<open>from funnel_clean where step_stage >= step_num\<close>.
\<close>

definition funnel_completion_rows :: "nat \<Rightarrow> step \<Rightarrow> step list \<Rightarrow> funnel_row list \<Rightarrow> funnel_row list" where
  "funnel_completion_rows i s filtered_steps funnel_clean =
     map (funnel_completion_select i s filtered_steps)
       (filter (\<lambda>r. step_stage r \<ge> rank s) funnel_clean)"

text \<open>The entries joined by \<^verbatim>\<open>union all\<close>.\<close>

definition funnel_completion_union :: "step list \<Rightarrow> funnel_row list \<Rightarrow> funnel_row list" where
  "funnel_completion_union filtered_steps funnel_clean =
     concat (map (\<lambda>(i, s). funnel_completion_rows i s filtered_steps funnel_clean)
               (enumerate 0 filtered_steps))"

text \<open>
  \<^verbatim>\<open>funnel_completed\<close>: the union, when every pasted name is safe in a literal; no
  reading of the statement otherwise.
\<close>

definition funnel_completed :: "step list \<Rightarrow> funnel_row list \<Rightarrow> funnel_row list option" where
  "funnel_completed filtered_steps funnel_clean =
     (if literals_safe filtered_steps
      then Some (funnel_completion_union filtered_steps funnel_clean)
      else None)"

text \<open>
  The final projection: the columns of \<^verbatim>\<open>funnel_completed\<close>, the step stage cast to a
  string, and the time of the run.
\<close>

record compiled_row = funnel_row +
  step :: string
  table_created_at :: timestamp

definition final_select :: "timestamp \<Rightarrow> funnel_row \<Rightarrow> compiled_row" where
  "final_select now r =
     funnel_row.extend r \<lparr>step = str_int (step_stage r), table_created_at = now\<rparr>"

definition standard_funnel ::
  "timestamp \<Rightarrow> step list \<Rightarrow> funnel_row list \<Rightarrow> compiled_row list option" where
  "standard_funnel now filtered_steps funnel_clean =
     map_option (map (final_select now)) (funnel_completed filtered_steps funnel_clean)"

text \<open>
  The two \<^verbatim>\<open>CASE\<close> expressions of the percentile query, on a screen name: the first
  matching \<^verbatim>\<open>WHEN\<close> of \<open>percentile_cases\<close>, else the name itself and 999.
\<close>

fun ordered_screen_name_case :: "(string \<times> string \<times> int) list \<Rightarrow> string \<Rightarrow> string" where
  "ordered_screen_name_case [] name = name"
| "ordered_screen_name_case (w # ws) name =
     (if name = fst w then fst (snd w) else ordered_screen_name_case ws name)"

fun step_order_case :: "(string \<times> string \<times> int) list \<Rightarrow> string \<Rightarrow> int" where
  "step_order_case [] name = 999"
| "step_order_case (w # ws) name =
     (if name = fst w then snd (snd w) else step_order_case ws name)"

definition step_order :: "string \<Rightarrow> int" where
  "step_order name = step_order_case percentile_cases name"

section \<open>Notions used in the statements\<close>

text \<open>
  A step survives the first loop when one of its loaded events is a key of
  \<^verbatim>\<open>available_events\<close>; \<open>update_step\<close> is the body of the \<^verbatim>\<open>if\<close> of that loop.
\<close>

definition step_available :: "(string \<rightharpoonup> int) \<Rightarrow> step \<Rightarrow> bool" where
  "step_available av s = (available_step_events av s \<noteq> [])"

definition update_step :: "(string \<rightharpoonup> int) \<Rightarrow> step \<Rightarrow> step" where
  "update_step av s =
     s\<lparr>loaded_events := available_step_events av s,
       original_events := Some (loaded_events s),
       event_count := Some (sum_list (map (count_of av) (available_step_events av s)))\<rparr>"

text \<open>A step has a declared event that some row of the query reports with a positive count.\<close>

definition has_positive_count :: "(string \<times> int) list \<Rightarrow> step \<Rightarrow> bool" where
  "has_positive_count results s =
     list_ex (\<lambda>event. list_ex (\<lambda>row. fst row = event \<and> 0 < snd row) results) (loaded_events s)"

text \<open>
  The ranking as the specification words it (4.2, step 4): the surviving steps in the
  order of their original ranks (a stable sort by original rank), numbered from 1. Each
  entry is the new rank and the screen name.
\<close>

definition claimed_ranking :: "(string \<times> int) list \<Rightarrow> step list \<Rightarrow> (int \<times> string) list" where
  "claimed_ranking results ss =
     map (\<lambda>(i, s). (int i + 1, step.screen_name s))
       (enumerate 0 (sort_key rank (filter (has_positive_count results) ss)))"

text \<open>
  A row of \<^verbatim>\<open>funnel_clean\<close> carries the labels that the two \<^verbatim>\<open>case\<close> expressions of
  \<^verbatim>\<open>funnel_base\<close> give to one of the events of the filter clause.
\<close>

definition labelled :: "step list \<Rightarrow> funnel_row \<Rightarrow> bool" where
  "labelled filtered_steps r =
     list_ex (\<lambda>event. funnel_base_labels filtered_steps event =
                       Some (Some (step_stage r), screen_name r))
       (concat (map loaded_events filtered_steps))"

text \<open>
  The backfilled row as the specification words it (4.3, step 3): the row synthesized at
  step \<open>s\<close> from a row \<open>r\<close> of \<^verbatim>\<open>funnel_clean\<close> that reached a later step. The entry
  time is the entry time of \<open>r\<close> minus \<open>s - 1\<close> minutes; the previous screen name is the
  label of step \<open>s - 1\<close>, null when \<open>s = 1\<close>; the success time is the entry time of
  \<open>r\<close> plus one minute, the conversion flag 1 and the time to convert 60, unless \<open>s\<close> is
  the last step (then null, 0 and null).
\<close>

definition claimed_backfill :: "step list \<Rightarrow> funnel_row \<Rightarrow> int \<Rightarrow> funnel_row" where
  "claimed_backfill filtered_steps r s =
     \<lparr>actor_id = actor_id r,
      session_id = session_id r,
      screen_name = step.screen_name (filtered_steps ! nat (s - 1)),
      screen_entry_time = screen_entry_time r - (s - 1) * 60000000,
      step_stage = s,
      current_tier = current_tier r,
      affluence_v11_flag = affluence_v11_flag r,
      gender = gender r,
      income_range = income_range r,
      app_version = app_version r,
      operating_system = operating_system r,
      entry_point = entry_point r,
      previous_screen_name =
        (if s = 1 then None else Some (step.screen_name (filtered_steps ! nat (s - 2)))),
      screen_success_time =
        (if s = int (length filtered_steps) then None
         else Some (screen_entry_time r + 60000000)),
      is_conversion_session = (if s = int (length filtered_steps) then 0 else 1),
      time_to_convert = (if s = int (length filtered_steps) then None else Some 60)\<rparr>"

text \<open>
  The row at the step that \<open>r\<close> reached: the select passes every column of \<open>r\<close>
  through and writes the label of the step as screen name.
\<close>

definition reached_row :: "step list \<Rightarrow> funnel_row \<Rightarrow> funnel_row" where
  "reached_row filtered_steps r =
     r\<lparr>screen_name := step.screen_name (filtered_steps ! nat (step_stage r - 1))\<rparr>"

section \<open>A three-step funnel\<close>

text \<open>
  The scenario of the specification (section 8): steps A, B, C on the events e1, e2, e3,
  all three events present in the data; one actor fires e1, then e3 ten minutes later, in
  one session. \<open>abc_steps\<close> is what \<^verbatim>\<open>check_event_availability\<close> returns;
  \<open>row_e1\<close> and \<open>row_e3\<close> are the actor's two rows of \<^verbatim>\<open>funnel_clean\<close>, with the
  values the window functions give them.
\<close>

definition abc_config :: config where
  "abc_config =
     FUNNEL_CONFIG\<lparr>steps := Some [mk_step 1 ''A'' [''e1''], mk_step 2 ''B'' [''e2''],
                                   mk_step 3 ''C'' [''e3'']]\<rparr>"

definition abc_results :: "(string \<times> int) list" where
  "abc_results = [(''e1'', 1), (''e2'', 1), (''e3'', 1)]"

definition abc_steps :: "step list" where
  "abc_steps =
     [\<lparr>rank = 1, screen_name = ''A'', loaded_events = [''e1''],
       original_events = Some [''e1''], event_count = Some 1\<rparr>,
      \<lparr>rank = 2, screen_name = ''B'', loaded_events = [''e2''],
       original_events = Some [''e2''], event_count = Some 1\<rparr>,
      \<lparr>rank = 3, screen_name = ''C'', loaded_events = [''e3''],
       original_events = Some [''e3''], event_count = Some 1\<rparr>]"

definition row_e1 :: funnel_row where
  "row_e1 =
     \<lparr>actor_id = ''u1'', session_id = ''s1'', screen_name = ''A'', screen_entry_time = 0,
      step_stage = 1, current_tier = None, affluence_v11_flag = None, gender = None,
      income_range = None, app_version = None, operating_system = None, entry_point = None,
      previous_screen_name = None, screen_success_time = Some 600000000,
      is_conversion_session = 1, time_to_convert = Some 600\<rparr>"

definition row_e3 :: funnel_row where
  "row_e3 =
     \<lparr>actor_id = ''u1'', session_id = ''s1'', screen_name = ''C'',
      screen_entry_time = 600000000,
      step_stage = 3, current_tier = None, affluence_v11_flag = None, gender = None,
      income_range = None, app_version = None, operating_system = None, entry_point = None,
      previous_screen_name = Some ''A'', screen_success_time = None,
      is_conversion_session = 0, time_to_convert = None\<rparr>"

section \<open>A step whose screen name holds a single quote\<close>

definition quoted_config :: config where
  "quoted_config = FUNNEL_CONFIG\<lparr>steps := Some [mk_step 1 ''O'Brien'' [''e1'']]\<rparr>"

definition quoted_steps :: "step list" where
  "quoted_steps =
     [\<lparr>rank = 1, screen_name = ''O'Brien'', loaded_events = [''e1''],
       original_events = Some [''e1''], event_count = Some 1\<rparr>]"

section \<open>A configuration with a period of zero days\<close>

text \<open>The three-step funnel with \<^verbatim>\<open>time_period_days\<close> set to 0.\<close>

definition zero_days_config :: config where
  "zero_days_config = abc_config\<lparr>time_period_days := Some 0\<rparr>"

section \<open>A funnel with one event in two steps\<close>

text \<open>
  The scenario of the specification: the event e1 is declared by step 1 and by step 2.
  \<open>dup_steps\<close> is what \<^verbatim>\<open>check_event_availability\<close> returns when e1 is present in
  the data.
\<close>

definition dup_config :: config where
  "dup_config = FUNNEL_CONFIG\<lparr>steps := Some [mk_step 1 ''A'' [''e1''], mk_step 2 ''B'' [''e1'']]\<rparr>"

definition dup_steps :: "step list" where
  "dup_steps =
     [\<lparr>rank = 1, screen_name = ''A'', loaded_events = [''e1''],
       original_events = Some [''e1''], event_count = Some 1\<rparr>,
      \<lparr>rank = 2, screen_name = ''B'', loaded_events = [''e1''],
       original_events = Some [''e1''], event_count = Some 1\<rparr>]"

section \<open>Availability rows that lack the event of the second step\<close>

text \<open>
  Rows of the availability query for the embedded configuration when no
  \<^verbatim>\<open>ClickedJoinTierButton\<close> event is in the data of the period: the other five events
  are present.
\<close>

definition tier_results :: "(string \<times> int) list" where
  "tier_results =
     [(''LoadedTierOverviewScreen'', 1), (''ClickedAddFundsButton'', 1),
      (''ClickedAddFundCtaPO'', 1), (''BalanceUpdateEvent'', 1), (''UserUpgradedTiering'', 1)]"

section \<open>Availability rows that lack the event of step B\<close>

text \<open>Rows of the availability query for the three-step funnel when no e2 is in the data.\<close>

definition partial_results :: "(string \<times> int) list" where
  "partial_results = [(''e1'', 1), (''e3'', 1)]"

section \<open>Lemmas on check_event_availability\<close>

lemma filter_loop_map:
  "filter_loop av ss =
   map (\<lambda>s. if step_available av s then (update_step av s, True) else (s, False)) ss"
  by (induction ss) (simp_all add: Let_def step_available_def update_step_def)

lemma filter_loop_kept:
  "map fst (filter snd (filter_loop av ss)) = map (update_step av) (filter (step_available av) ss)"
  by (induction ss) (simp_all add: Let_def step_available_def update_step_def)

lemma rerank_loop_snd: "map snd (rerank_loop i ps) = map snd ps"
  by (induction i ps rule: rerank_loop.induct) simp_all

lemma rerank_loop_length: "length (rerank_loop i ps) = length ps"
  by (induction i ps rule: rerank_loop.induct) simp_all

lemma map_enumerate_Suc:
  "map (\<lambda>(j, s). f j s) (enumerate (Suc n) xs) = map (\<lambda>(j, s). f (Suc j) s) (enumerate n xs)"
  by (induction xs arbitrary: n) simp_all

lemma enumerate_map:
  "enumerate n (map f xs) = map (\<lambda>(i, x). (i, f x)) (enumerate n xs)"
  by (induction xs arbitrary: n) simp_all

lemma rerank_loop_kept:
  "map fst (filter snd (rerank_loop i ps)) =
   map (\<lambda>(j, s). s\<lparr>rank := i + int j + 1\<rparr>) (enumerate 0 (map fst (filter snd ps)))"
proof (induction i ps rule: rerank_loop.induct)
  case (1 i)
  then show ?case by simp
next
  case (2 i s kept ps)
  show ?case
  proof (cases kept)
    case True
    have shift: "map (\<lambda>(j, s). s\<lparr>rank := i + int j + 1\<rparr>) (enumerate (Suc 0) xs)
        = map (\<lambda>(j, s). s\<lparr>rank := i + 1 + int j + 1\<rparr>) (enumerate 0 xs)" for xs :: "step list"
      using map_enumerate_Suc [of "\<lambda>j s. s\<lparr>rank := i + int j + 1\<rparr>" 0 xs]
      by (simp add: add.commute add.left_commute)
    from True 2 show ?thesis by (simp add: shift)
  next
    case False
    with 2 show ?thesis by simp
  qed
qed

lemma map_rank_enumerate:
  "map rank (map (\<lambda>(j, s). s\<lparr>rank := i + int j + 1\<rparr>) (enumerate n xs)) =
   [i + int n + 1..i + int n + int (length xs)]"
proof (induction xs arbitrary: n)
  case Nil
  then show ?case by simp
next
  case (Cons x xs)
  have "[i + int n + 1..i + int n + int (length (x # xs))] =
        (i + int n + 1) # [i + int n + 1 + 1..i + int n + int (length (x # xs))]"
    by (rule upto_rec1) simp
  also have "[i + int n + 1 + 1..i + int n + int (length (x # xs))] =
        [i + int (Suc n) + 1..i + int (Suc n) + int (length xs)]"
    by (simp add: add.commute add.left_commute)
  finally show ?case using Cons [of "Suc n"] by simp
qed

lemma available_events_dom: "available_events results e \<noteq> None \<longleftrightarrow> e \<in> fst ` set results"
  by (induction results) (auto split: option.splits)

lemma step_available_positive:
  assumes "\<forall>row \<in> set results. 0 < snd row"
  shows "step_available (available_events results) s = has_positive_count results s"
proof -
  have "(available_events results e \<noteq> None) = list_ex (\<lambda>row. fst row = e \<and> 0 < snd row) results" for e
    using assms available_events_dom [of results e] by (force simp: list_ex_iff)
  then show ?thesis
    by (auto simp: step_available_def available_step_events_def has_positive_count_def
          filter_empty_conv list_ex_iff)
qed

lemma check_event_availability_Inr:
  assumes "check_event_availability c results = Inr (c', filtered_steps)"
    and "steps c = Some ss"
  shows "filtered_steps =
           map (\<lambda>(i, s). (update_step (available_events results) s)\<lparr>rank := int i + 1\<rparr>)
             (enumerate 0 (filter (step_available (available_events results)) ss))"
    and "c' = c\<lparr>steps := Some (map fst (rerank_loop 0 (filter_loop (available_events results) ss)))\<rparr>"
  using assms
  by (auto simp: check_event_availability_def Let_def rerank_loop_kept filter_loop_kept
        enumerate_map case_prod_unfold comp_def split: if_splits)

lemma filtered_steps_ranks:
  assumes "check_event_availability c results = Inr (c', filtered_steps)"
  shows "map rank filtered_steps = [1..int (length filtered_steps)]"
proof -
  from assms obtain ss where ss: "steps c = Some ss"
    by (auto simp: check_event_availability_def split: option.splits)
  let ?av = "available_events results"
  show ?thesis
    using map_rank_enumerate [of 0 0 "map (update_step ?av) (filter (step_available ?av) ss)"]
    by (simp add: check_event_availability_Inr(1) [OF assms ss] enumerate_map comp_def
          case_prod_unfold)
qed

section \<open>Availability filtering: which steps survive, and their ranks\<close>

text \<open>
  Claim C4, as amended. When the rows of the availability query carry positive counts (as
  \<^verbatim>\<open>COUNT(*)\<close> of a group does), \<^verbatim>\<open>check_event_availability\<close> returns exactly the
  steps that have a declared event with a positive count, each updated by the loop body,
  in the order in which the configuration lists them, with ranks 1 to K. The order is the
  order of the original ranks when the configuration lists its steps by ascending rank.
\<close>

theorem check_event_availability_list_order:
  assumes "check_event_availability c results = Inr (c', filtered_steps)"
    and "steps c = Some ss"
    and "\<forall>row \<in> set results. 0 < snd row"
  shows "filtered_steps =
           map (\<lambda>(i, s). (update_step (available_events results) s)\<lparr>rank := int i + 1\<rparr>)
             (enumerate 0 (filter (has_positive_count results) ss))
       \<and> map rank filtered_steps = [1..int (length filtered_steps)]
       \<and> (sorted (map rank ss) \<longrightarrow>
            map (\<lambda>s. (rank s, step.screen_name s)) filtered_steps = claimed_ranking results ss)"
proof -
  let ?av = "available_events results"
  have P: "step_available ?av = has_positive_count results"
    using step_available_positive [OF assms(3)] by (rule ext)
  have fs: "filtered_steps =
           map (\<lambda>(i, s). (update_step ?av s)\<lparr>rank := int i + 1\<rparr>)
             (enumerate 0 (filter (has_positive_count results) ss))"
    using check_event_availability_Inr(1) [OF assms(1,2)] by (simp add: P)
  have ranks: "map rank filtered_steps = [1..int (length filtered_steps)]"
    by (rule filtered_steps_ranks [OF assms(1)])
  have "map (\<lambda>s. (rank s, step.screen_name s)) filtered_steps = claimed_ranking results ss"
    if "sorted (map rank ss)"
  proof -
    have "sort_key rank (filter (has_positive_count results) ss) =
          filter (has_positive_count results) ss"
      by (rule sort_key_id_if_sorted) (rule sorted_filter [OF that])
    then show ?thesis
      by (simp add: fs claimed_ranking_def comp_def case_prod_unfold update_step_def)
  qed
  with fs ranks show ?thesis by blast
qed

theorem check_event_availability_list_order_witness:
  "check_event_availability
     (FUNNEL_CONFIG\<lparr>steps := Some [mk_step 1 ''A'' [''e1'', ''e2''], mk_step 2 ''B'' [''e3''],
                                    mk_step 3 ''C'' [''e4'']]\<rparr>)
     [(''e1'', 5), (''e4'', 2)] =
   Inr (FUNNEL_CONFIG\<lparr>steps := Some
          [\<lparr>rank = 1, screen_name = ''A'', loaded_events = [''e1''],
            original_events = Some [''e1'', ''e2''], event_count = Some 5\<rparr>,
           mk_step 2 ''B'' [''e3''],
           \<lparr>rank = 2, screen_name = ''C'', loaded_events = [''e4''],
            original_events = Some [''e4''], event_count = Some 2\<rparr>]\<rparr>,
        [\<lparr>rank = 1, screen_name = ''A'', loaded_events = [''e1''],
          original_events = Some [''e1'', ''e2''], event_count = Some 5\<rparr>,
         \<lparr>rank = 2, screen_name = ''C'', loaded_events = [''e4''],
          original_events = Some [''e4''], event_count = Some 2\<rparr>])
   \<and> sorted (map rank [mk_step 1 ''A'' [''e1'', ''e2''], mk_step 2 ''B'' [''e3''],
                         mk_step 3 ''C'' [''e4'']])
   \<and> claimed_ranking [(''e1'', 5), (''e4'', 2)]
        [mk_step 1 ''A'' [''e1'', ''e2''], mk_step 2 ''B'' [''e3''], mk_step 3 ''C'' [''e4'']]
      = [(1, ''A''), (2, ''C'')]"
proof -
  let ?ss = "[mk_step 1 ''A'' [''e1'', ''e2''], mk_step 2 ''B'' [''e3''], mk_step 3 ''C'' [''e4'']]"
  let ?c = "FUNNEL_CONFIG\<lparr>steps := Some ?ss\<rparr>"
  let ?results = "[(''e1'', 5::int), (''e4'', 2)]"
  let ?A = "\<lparr>rank = 1, screen_name = ''A'', loaded_events = [''e1''],
            original_events = Some [''e1'', ''e2''], event_count = Some 5\<rparr>"
  let ?C = "\<lparr>rank = 2, screen_name = ''C'', loaded_events = [''e4''],
            original_events = Some [''e4''], event_count = Some 2\<rparr>"
  have run: "check_event_availability ?c ?results =
             Inr (FUNNEL_CONFIG\<lparr>steps := Some [?A, mk_step 2 ''B'' [''e3''], ?C]\<rparr>, [?A, ?C])"
    by (simp add: check_event_availability_def FUNNEL_CONFIG_def mk_step_def Let_def
          available_step_events_def count_of_def)
  have st: "steps ?c = Some ?ss" by simp
  have pos: "\<forall>row \<in> set ?results. 0 < snd row" by simp
  have srt: "sorted (map rank ?ss)" by (simp add: mk_step_def)
  from check_event_availability_list_order [OF run st pos] srt
  have "claimed_ranking ?results ?ss = [(1, ''A''), (2, ''C'')]" by simp
  with run srt show ?thesis by blast
qed

text \<open>
  The claim as stated fails on a configuration that lists rank 2 before rank 1: the code
  numbers the steps in list order, A then B; the order of the original ranks is B then A.
\<close>

theorem check_event_availability_rank_order_counterexample:
  "check_event_availability
     (FUNNEL_CONFIG\<lparr>steps := Some [mk_step 2 ''A'' [''e1''], mk_step 1 ''B'' [''e2'']]\<rparr>)
     [(''e1'', 5), (''e2'', 3)] =
   Inr (FUNNEL_CONFIG\<lparr>steps := Some
          [\<lparr>rank = 1, screen_name = ''A'', loaded_events = [''e1''],
            original_events = Some [''e1''], event_count = Some 5\<rparr>,
           \<lparr>rank = 2, screen_name = ''B'', loaded_events = [''e2''],
            original_events = Some [''e2''], event_count = Some 3\<rparr>]\<rparr>,
        [\<lparr>rank = 1, screen_name = ''A'', loaded_events = [''e1''],
          original_events = Some [''e1''], event_count = Some 5\<rparr>,
         \<lparr>rank = 2, screen_name = ''B'', loaded_events = [''e2''],
          original_events = Some [''e2''], event_count = Some 3\<rparr>])
   \<and> claimed_ranking [(''e1'', 5), (''e2'', 3)]
        [mk_step 2 ''A'' [''e1''], mk_step 1 ''B'' [''e2'']] = [(1, ''B''), (2, ''A'')]"
  by (simp add: check_event_availability_def FUNNEL_CONFIG_def mk_step_def Let_def
        available_step_events_def count_of_def claimed_ranking_def has_positive_count_def)

section \<open>Lemmas on the completed funnel\<close>

lemma final_select_fields [simp]:
  "actor_id (final_select now r) = actor_id r"
  "session_id (final_select now r) = session_id r"
  "step_stage (final_select now r) = step_stage r"
  by (simp_all add: final_select_def funnel_row.defs)

lemma completion_select_fields [simp]:
  "actor_id (funnel_completion_select i s fs r) = actor_id r"
  "session_id (funnel_completion_select i s fs r) = session_id r"
  "step_stage (funnel_completion_select i s fs r) = rank s"
  by (simp_all add: funnel_completion_select_def Let_def)

lemma length_filter_concat:
  "length (filter P (concat xss)) = sum_list (map (\<lambda>xs. length (filter P xs)) xss)"
  by (induction xss) simp_all

lemma sum_list_if_const:
  "sum_list (map (\<lambda>x. if Q x then (n::nat) else 0) xs) = length (filter Q xs) * n"
  by (induction xs) simp_all

lemma count_rows_at_step:
  "length (filter (\<lambda>x. actor_id x = a \<and> session_id x = se \<and> step_stage x = k)
             (funnel_completion_union fs clean)) =
   length (filter (\<lambda>s. rank s = k) fs) *
   length (filter (\<lambda>r. actor_id r = a \<and> session_id r = se \<and> k \<le> step_stage r) clean)"
proof -
  have branch: "length (filter (\<lambda>x. actor_id x = a \<and> session_id x = se \<and> step_stage x = k)
                  (funnel_completion_rows i s fs clean)) =
        (if rank s = k
         then length (filter (\<lambda>r. actor_id r = a \<and> session_id r = se \<and> k \<le> step_stage r) clean)
         else 0)" for i s
    by (auto simp: funnel_completion_rows_def filter_map comp_def conj_commute
          intro!: arg_cong [where f = length] filter_cong)
  have "map (\<lambda>p. length (filter (\<lambda>x. actor_id x = a \<and> session_id x = se \<and> step_stage x = k)
                  (case p of (i, s) \<Rightarrow> funnel_completion_rows i s fs clean))) (enumerate n fs') =
        map (\<lambda>s. if rank s = k
         then length (filter (\<lambda>r. actor_id r = a \<and> session_id r = se \<and> k \<le> step_stage r) clean)
         else 0) fs'" for n fs'
    by (induction fs' arbitrary: n) (simp_all add: branch)
  then show ?thesis
    by (simp add: funnel_completion_union_def length_filter_concat comp_def sum_list_if_const)
qed

lemma length_filter_eq_distinct:
  "distinct xs \<Longrightarrow> length (filter (\<lambda>x. x = k) xs) = (if k \<in> set xs then 1 else 0)"
  by (induction xs) auto

lemma steps_with_rank:
  assumes "map rank fs = [1..int (length fs)]"
  shows "length (filter (\<lambda>s. rank s = k) fs) = (if 1 \<le> k \<and> k \<le> int (length fs) then 1 else 0)"
proof -
  have "length (filter (\<lambda>s. rank s = k) fs) = length (filter (\<lambda>x. x = k) (map rank fs))"
    by (simp add: filter_map comp_def)
  also have "\<dots> = (if k \<in> set [1..int (length fs)] then 1 else 0)"
    unfolding assms by (rule length_filter_eq_distinct) simp
  finally show ?thesis by simp
qed

lemma rank_nth:
  assumes "map rank fs = [1..int (length fs)]" and "i < length fs"
  shows "rank (fs ! i) = int i + 1"
proof -
  have "rank (fs ! i) = map rank fs ! i" using assms(2) by simp
  also have "\<dots> = [1..int (length fs)] ! i" by (simp only: assms(1))
  also have "\<dots> = 1 + int i" using assms(2) by (intro nth_upto) simp
  finally show ?thesis by simp
qed

lemma abc_run:
  "check_event_availability abc_config abc_results =
     Inr (abc_config\<lparr>steps := Some abc_steps\<rparr>, abc_steps)"
  by (simp add: check_event_availability_def abc_config_def abc_results_def abc_steps_def
        FUNNEL_CONFIG_def mk_step_def Let_def available_step_events_def count_of_def)

lemma abc_safe: "literals_safe abc_steps"
  by (simp add: literals_safe_def literal_safe_def abc_steps_def)

lemma first_match:
  "step_stage_case fs ev = Some k \<Longrightarrow>
     \<exists>i<length fs. rank (fs ! i) = k \<and> screen_name_case_of fs ev = step.screen_name (fs ! i)"
proof (induction fs)
  case Nil
  then show ?case by simp
next
  case (Cons s fs)
  show ?case
  proof (cases "ev \<in> set (loaded_events s)")
    case True
    with Cons.prems have "rank s = k" by simp
    with True show ?thesis by (intro exI [of _ 0]) simp
  next
    case False
    with Cons obtain i where "i < length fs" "rank (fs ! i) = k"
      "screen_name_case_of fs ev = step.screen_name (fs ! i)" by auto
    with False show ?thesis by (intro exI [of _ "Suc i"]) simp
  qed
qed

lemma select_reached:
  assumes "rank s = step_stage r" and "step.screen_name s = screen_name r"
  shows "funnel_completion_select i s fs r = r"
  using assms by (cases r) (simp add: funnel_completion_select_def Let_def)

lemma labelled_passes:
  assumes "labelled fs r" and "r \<in> set clean"
  shows "r \<in> set (funnel_completion_union fs clean)"
proof -
  from assms(1) obtain ev where "step_stage_case fs ev = Some (step_stage r)"
    and sn: "screen_name_case_of fs ev = screen_name r"
    by (auto simp: labelled_def list_ex_iff funnel_base_labels_def split: if_splits)
  from first_match [OF this(1)] sn obtain i where i: "i < length fs"
    "rank (fs ! i) = step_stage r" "step.screen_name (fs ! i) = screen_name r" by auto
  have "(i, fs ! i) \<in> set (enumerate 0 fs)" using i(1) by (simp add: in_set_enumerate_eq)
  moreover have "r \<in> set (funnel_completion_rows i (fs ! i) fs clean)"
    using assms(2) i select_reached [of "fs ! i" r i fs]
    by (force simp: funnel_completion_rows_def image_iff)
  ultimately show ?thesis by (force simp: funnel_completion_union_def)
qed

lemma select_eq:
  assumes "i < length fs" and "rank (fs ! i) = int i + 1"
  shows "funnel_completion_select i (fs ! i) fs r =
           (if int i + 1 = step_stage r then reached_row fs r
            else claimed_backfill fs r (int i + 1))"
proof (cases "int i + 1 = step_stage r")
  case True
  then have "nat (step_stage r - 1) = i" by simp
  with True assms(2) show ?thesis
    by (cases r) (simp add: funnel_completion_select_def Let_def reached_row_def)
next
  case False
  have "nat (int i - 1) = i - 1" by simp
  with False assms(2) show ?thesis
    by (simp add: funnel_completion_select_def Let_def claimed_backfill_def timestamp_sub_def
          timestamp_add_def)
qed

lemma union_rows:
  "set (funnel_completion_union fs clean) =
     {x. \<exists>i<length fs. \<exists>r\<in>set clean. rank (fs ! i) \<le> step_stage r
           \<and> x = funnel_completion_select i (fs ! i) fs r}"
proof (intro set_eqI)
  fix x
  have "x \<in> set (funnel_completion_union fs clean) \<longleftrightarrow>
        (\<exists>p\<in>set (enumerate 0 fs). x \<in> set (funnel_completion_rows (fst p) (snd p) fs clean))"
    by (simp add: funnel_completion_union_def case_prod_unfold)
  also have "\<dots> \<longleftrightarrow> (\<exists>i<length fs. x \<in> set (funnel_completion_rows i (fs ! i) fs clean))"
  proof
    assume "\<exists>p\<in>set (enumerate 0 fs). x \<in> set (funnel_completion_rows (fst p) (snd p) fs clean)"
    then obtain p where p: "p \<in> set (enumerate 0 fs)"
      and x: "x \<in> set (funnel_completion_rows (fst p) (snd p) fs clean)" by blast
    from p have "fst p < length fs" "snd p = fs ! fst p" by (simp_all add: in_set_enumerate_eq)
    with x show "\<exists>i<length fs. x \<in> set (funnel_completion_rows i (fs ! i) fs clean)" by auto
  next
    assume "\<exists>i<length fs. x \<in> set (funnel_completion_rows i (fs ! i) fs clean)"
    then obtain i where i: "i < length fs"
      and x: "x \<in> set (funnel_completion_rows i (fs ! i) fs clean)" by blast
    from i have "(i, fs ! i) \<in> set (enumerate 0 fs)" by (simp add: in_set_enumerate_eq)
    with x show "\<exists>p\<in>set (enumerate 0 fs). x \<in> set (funnel_completion_rows (fst p) (snd p) fs clean)"
      by force
  qed
  also have "\<dots> \<longleftrightarrow> (\<exists>i<length fs. \<exists>r\<in>set clean. rank (fs ! i) \<le> step_stage r
           \<and> x = funnel_completion_select i (fs ! i) fs r)"
    by (auto simp: funnel_completion_rows_def)
  finally show "x \<in> set (funnel_completion_union fs clean) \<longleftrightarrow>
     x \<in> {x. \<exists>i<length fs. \<exists>r\<in>set clean. rank (fs ! i) \<le> step_stage r
           \<and> x = funnel_completion_select i (fs ! i) fs r}"
    by simp
qed

lemma table_rows:
  assumes ranks: "map rank fs = [1..int (length fs)]"
  shows "set (funnel_completion_union fs clean) =
           (\<Union>r\<in>set clean.
              (\<lambda>s. if s = step_stage r then reached_row fs r else claimed_backfill fs r s)
                ` {1..min (step_stage r) (int (length fs))})"
    (is "?L = ?R")
proof (intro set_eqI iffI)
  fix x
  assume "x \<in> ?L"
  then obtain i r where i: "i < length fs" and r: "r \<in> set clean"
    and le: "rank (fs ! i) \<le> step_stage r"
    and x: "x = funnel_completion_select i (fs ! i) fs r"
    unfolding union_rows by blast
  have rk: "rank (fs ! i) = int i + 1" by (rule rank_nth [OF ranks i])
  have "int i + 1 \<in> {1..min (step_stage r) (int (length fs))}" using i le rk by simp
  moreover have "x = (if int i + 1 = step_stage r then reached_row fs r
                      else claimed_backfill fs r (int i + 1))"
    unfolding x by (rule select_eq [OF i rk])
  ultimately show "x \<in> ?R" using r by blast
next
  fix x
  assume "x \<in> ?R"
  then obtain r s where r: "r \<in> set clean"
    and s: "1 \<le> s" "s \<le> step_stage r" "s \<le> int (length fs)"
    and x: "x = (if s = step_stage r then reached_row fs r else claimed_backfill fs r s)"
    by auto
  define i where "i = nat (s - 1)"
  have i: "i < length fs" and si: "int i + 1 = s" using s by (simp_all add: i_def)
  have rk: "rank (fs ! i) = int i + 1" by (rule rank_nth [OF ranks i])
  have "x = funnel_completion_select i (fs ! i) fs r"
    unfolding x select_eq [OF i rk] si by simp
  moreover have "rank (fs ! i) \<le> step_stage r" using rk si s by simp
  ultimately show "x \<in> ?L" unfolding union_rows using i r by blast
qed

section \<open>Backfill: the rows of the compiled table\<close>

text \<open>
  Claim C1, as amended. For the steps that \<^verbatim>\<open>check_event_availability\<close> returns, with
  screen names and event names that hold no single quote, backslash or line break, and any
  table \<^verbatim>\<open>funnel_clean\<close>: the compiled table holds, for an actor and session, as many
  rows at step \<open>k\<close> (from 1 to the number of steps) as \<^verbatim>\<open>funnel_clean\<close> holds rows of
  that actor and session at a step \<open>k\<close> or later, and none at any other step; every row of
  \<^verbatim>\<open>funnel_clean\<close> that carries the labels of \<^verbatim>\<open>funnel_base\<close> is in the compiled table
  with its values unchanged, under the final projection; an actor and session with a single
  row in \<^verbatim>\<open>funnel_clean\<close>, at step S, has exactly one row at each step 1 to S.
\<close>

theorem backfill_rows_per_step:
  assumes "check_event_availability c results = Inr (c', fs)"
    and "literals_safe fs"
  shows "\<exists>tbl. standard_funnel now fs clean = Some tbl
       \<and> length (filter (\<lambda>x. actor_id x = a \<and> session_id x = se \<and> step_stage x = k) tbl) =
           (if 1 \<le> k \<and> k \<le> int (length fs)
            then length (filter (\<lambda>r. actor_id r = a \<and> session_id r = se \<and> k \<le> step_stage r) clean)
            else 0)
       \<and> (\<forall>r\<in>set clean. labelled fs r \<longrightarrow> final_select now r \<in> set tbl)
       \<and> (filter (\<lambda>r. actor_id r = a \<and> session_id r = se) clean = [r0]
            \<and> 1 \<le> k \<and> k \<le> step_stage r0 \<and> step_stage r0 \<le> int (length fs) \<longrightarrow>
          length (filter (\<lambda>x. actor_id x = a \<and> session_id x = se \<and> step_stage x = k) tbl) = 1)"
proof -
  define tbl where "tbl = map (final_select now) (funnel_completion_union fs clean)"
  let ?out = "filter (\<lambda>x. actor_id x = a \<and> session_id x = se \<and> step_stage x = k) tbl"
  let ?n = "length (filter (\<lambda>r. actor_id r = a \<and> session_id r = se \<and> k \<le> step_stage r) clean)"
  have tbl: "standard_funnel now fs clean = Some tbl"
    using assms(2) by (simp add: standard_funnel_def funnel_completed_def tbl_def)
  have ranks: "map rank fs = [1..int (length fs)]"
    by (rule filtered_steps_ranks [OF assms(1)])
  have count: "length ?out = (if 1 \<le> k \<and> k \<le> int (length fs) then ?n else 0)"
    using count_rows_at_step [of a se k fs clean] steps_with_rank [OF ranks, of k]
    by (simp add: tbl_def filter_map comp_def)
  have pass: "\<forall>r\<in>set clean. labelled fs r \<longrightarrow> final_select now r \<in> set tbl"
    using labelled_passes [of fs _ clean] by (auto simp: tbl_def)
  have single: "length ?out = 1"
    if one: "filter (\<lambda>r. actor_id r = a \<and> session_id r = se) clean = [r0]"
      and k: "1 \<le> k" "k \<le> step_stage r0" "step_stage r0 \<le> int (length fs)"
  proof -
    have "filter (\<lambda>r. actor_id r = a \<and> session_id r = se \<and> k \<le> step_stage r) clean =
          filter (\<lambda>r. k \<le> step_stage r) (filter (\<lambda>r. actor_id r = a \<and> session_id r = se) clean)"
      by (simp add: conj_commute conj_left_commute)
    then have "?n = 1" using k by (simp add: one)
    with count k show ?thesis by simp
  qed
  from tbl count pass single show ?thesis by blast
qed

theorem backfill_rows_per_step_witness:
  "\<exists>tbl. standard_funnel 0 abc_steps [row_e3] = Some tbl
     \<and> length (filter (\<lambda>x. actor_id x = ''u1'' \<and> session_id x = ''s1'' \<and> step_stage x = 2) tbl) = 1
     \<and> final_select 0 row_e3 \<in> set tbl"
proof -
  have lab: "labelled abc_steps row_e3"
    by (simp add: labelled_def funnel_base_labels_def abc_safe) (simp add: abc_steps_def row_e3_def)
  have one: "filter (\<lambda>r. actor_id r = ''u1'' \<and> session_id r = ''s1'') [row_e3] = [row_e3]"
    by (simp add: row_e3_def)
  have k: "(1::int) \<le> 2" "2 \<le> step_stage row_e3" "step_stage row_e3 \<le> int (length abc_steps)"
    by (simp_all add: row_e3_def abc_steps_def)
  from backfill_rows_per_step [OF abc_run abc_safe, of 0 "[row_e3]" "''u1''" "''s1''" 2 row_e3]
  obtain tbl where "standard_funnel 0 abc_steps [row_e3] = Some tbl"
    and "\<forall>r\<in>set [row_e3]. labelled abc_steps r \<longrightarrow> final_select 0 r \<in> set tbl"
    and "filter (\<lambda>r. actor_id r = ''u1'' \<and> session_id r = ''s1'') [row_e3] = [row_e3]
            \<and> 1 \<le> (2::int) \<and> 2 \<le> step_stage row_e3 \<and> step_stage row_e3 \<le> int (length abc_steps) \<longrightarrow>
          length (filter (\<lambda>x. actor_id x = ''u1'' \<and> session_id x = ''s1'' \<and> step_stage x = 2) tbl) = 1"
    by blast
  with lab one k show ?thesis by auto
qed

text \<open>
  The claim as stated fails in the scenario of the specification: the actor has rows at
  steps 1 and 3 in \<^verbatim>\<open>funnel_clean\<close>, so the maximum step is 3, and the compiled table
  has two rows at step 1, the observed one and the one synthesized from the row at step 3.
\<close>

theorem one_row_per_step_counterexample:
  "check_event_availability abc_config abc_results =
     Inr (abc_config\<lparr>steps := Some abc_steps\<rparr>, abc_steps)
   \<and> map_option
       (\<lambda>tbl. length (filter (\<lambda>x. actor_id x = ''u1'' \<and> session_id x = ''s1'' \<and> step_stage x = 1) tbl))
       (standard_funnel 0 abc_steps [row_e1, row_e3]) = Some 2"
proof -
  have "funnel_completed abc_steps [row_e1, row_e3] =
        Some (funnel_completion_union abc_steps [row_e1, row_e3])"
    by (simp add: funnel_completed_def abc_safe)
  moreover have "length (filter (\<lambda>x. actor_id x = ''u1'' \<and> session_id x = ''s1'' \<and> step_stage x = 1)
          (map (final_select 0) (funnel_completion_union abc_steps [row_e1, row_e3]))) = 2"
    by (simp add: funnel_completion_union_def funnel_completion_rows_def
          abc_steps_def row_e1_def row_e3_def)
  ultimately show ?thesis by (simp add: abc_run standard_funnel_def)
qed

section \<open>Backfill: the synthesized fields\<close>

text \<open>
  Claim C2, as amended. For the steps that \<^verbatim>\<open>check_event_availability\<close> returns, with
  screen names and event names that hold no single quote, backslash or line break, the rows
  of \<^verbatim>\<open>funnel_completed\<close> are, for every row \<open>r\<close> of \<^verbatim>\<open>funnel_clean\<close> and every step
  \<open>s\<close> from 1 to the step of \<open>r\<close> (and to the number of steps): the row \<open>r\<close> itself
  under the label of its step when \<open>s\<close> is the step of \<open>r\<close>, and otherwise the backfilled
  row as the specification words it: the entry time of \<open>r\<close> minus \<open>s - 1\<close> minutes; the
  label of step \<open>s - 1\<close> as previous screen name, null when \<open>s = 1\<close>; the entry time
  plus one minute as success time, 1 as conversion flag and 60 as time to convert, unless
  \<open>s\<close> is the last step (then null, 0 and null). Of two rows backfilled from the same
  row, both in the table, the one at the smaller step has the strictly later entry time.
\<close>

theorem backfilled_row_fields:
  assumes "check_event_availability c results = Inr (c', fs)"
    and "literals_safe fs"
  shows "\<exists>tbl. funnel_completed fs clean = Some tbl
       \<and> set tbl =
           (\<Union>r\<in>set clean.
              (\<lambda>s. if s = step_stage r then reached_row fs r else claimed_backfill fs r s)
                ` {1..min (step_stage r) (int (length fs))})
       \<and> (\<forall>r\<in>set clean. \<forall>s1 s2.
            1 \<le> s1 \<and> s1 < s2 \<and> s2 < step_stage r \<and> s2 \<le> int (length fs) \<longrightarrow>
              claimed_backfill fs r s1 \<in> set tbl \<and> claimed_backfill fs r s2 \<in> set tbl
            \<and> screen_entry_time (claimed_backfill fs r s2) <
              screen_entry_time (claimed_backfill fs r s1))"
proof -
  define tbl where "tbl = funnel_completion_union fs clean"
  have tbl: "funnel_completed fs clean = Some tbl"
    using assms(2) by (simp add: funnel_completed_def tbl_def)
  have ranks: "map rank fs = [1..int (length fs)]"
    by (rule filtered_steps_ranks [OF assms(1)])
  have rows: "set tbl =
           (\<Union>r\<in>set clean.
              (\<lambda>s. if s = step_stage r then reached_row fs r else claimed_backfill fs r s)
                ` {1..min (step_stage r) (int (length fs))})"
    unfolding tbl_def by (rule table_rows [OF ranks])
  have mem: "claimed_backfill fs r s \<in> set tbl"
    if "r \<in> set clean" "1 \<le> s" "s < step_stage r" "s \<le> int (length fs)" for r s
  proof -
    have "s \<in> {1..min (step_stage r) (int (length fs))}" using that by simp
    moreover have "claimed_backfill fs r s =
      (if s = step_stage r then reached_row fs r else claimed_backfill fs r s)"
      using that by simp
    ultimately show ?thesis unfolding rows using that(1) by blast
  qed
  have order: "screen_entry_time (claimed_backfill fs r s2) <
               screen_entry_time (claimed_backfill fs r s1)" if "s1 < s2" for r s1 s2
    using that by (simp add: claimed_backfill_def)
  have "\<forall>r\<in>set clean. \<forall>s1 s2.
            1 \<le> s1 \<and> s1 < s2 \<and> s2 < step_stage r \<and> s2 \<le> int (length fs) \<longrightarrow>
              claimed_backfill fs r s1 \<in> set tbl \<and> claimed_backfill fs r s2 \<in> set tbl
            \<and> screen_entry_time (claimed_backfill fs r s2) <
              screen_entry_time (claimed_backfill fs r s1)"
  proof (intro ballI allI impI)
    fix r s1 s2
    assume r: "r \<in> set clean"
      and s: "1 \<le> s1 \<and> s1 < s2 \<and> s2 < step_stage r \<and> s2 \<le> int (length fs)"
    from s have "claimed_backfill fs r s1 \<in> set tbl" by (intro mem [OF r]) simp_all
    moreover from s have "claimed_backfill fs r s2 \<in> set tbl" by (intro mem [OF r]) simp_all
    moreover from s have "screen_entry_time (claimed_backfill fs r s2) <
              screen_entry_time (claimed_backfill fs r s1)" by (intro order) simp
    ultimately show "claimed_backfill fs r s1 \<in> set tbl \<and> claimed_backfill fs r s2 \<in> set tbl
            \<and> screen_entry_time (claimed_backfill fs r s2) <
              screen_entry_time (claimed_backfill fs r s1)" by blast
  qed
  with tbl rows show ?thesis by blast
qed

theorem backfilled_row_fields_witness:
  "\<exists>tbl. funnel_completed abc_steps [row_e3] = Some tbl
     \<and> \<lparr>actor_id = ''u1'', session_id = ''s1'', screen_name = ''B'',
        screen_entry_time = 540000000,
        step_stage = 2, current_tier = None, affluence_v11_flag = None, gender = None,
        income_range = None, app_version = None, operating_system = None, entry_point = None,
        previous_screen_name = Some ''A'', screen_success_time = Some 660000000,
        is_conversion_session = 1, time_to_convert = Some 60\<rparr> \<in> set tbl
     \<and> claimed_backfill abc_steps row_e3 1 \<in> set tbl
     \<and> screen_entry_time (claimed_backfill abc_steps row_e3 2) <
       screen_entry_time (claimed_backfill abc_steps row_e3 1)"
proof -
  have r: "row_e3 \<in> set [row_e3]" by simp
  have s: "(1::int) \<le> 1 \<and> (1::int) < 2 \<and> 2 < step_stage row_e3 \<and> 2 \<le> int (length abc_steps)"
    by (simp add: row_e3_def abc_steps_def)
  have b: "claimed_backfill abc_steps row_e3 2 =
     \<lparr>actor_id = ''u1'', session_id = ''s1'', screen_name = ''B'',
        screen_entry_time = 540000000,
        step_stage = 2, current_tier = None, affluence_v11_flag = None, gender = None,
        income_range = None, app_version = None, operating_system = None, entry_point = None,
        previous_screen_name = Some ''A'', screen_success_time = Some 660000000,
        is_conversion_session = 1, time_to_convert = Some 60\<rparr>"
    by (simp add: claimed_backfill_def abc_steps_def row_e3_def)
  from backfilled_row_fields [OF abc_run abc_safe, of "[row_e3]"]
  obtain tbl where tbl: "funnel_completed abc_steps [row_e3] = Some tbl"
    and ord: "\<forall>r\<in>set [row_e3]. \<forall>s1 s2.
            1 \<le> s1 \<and> s1 < s2 \<and> s2 < step_stage r \<and> s2 \<le> int (length abc_steps) \<longrightarrow>
              claimed_backfill abc_steps r s1 \<in> set tbl \<and> claimed_backfill abc_steps r s2 \<in> set tbl
            \<and> screen_entry_time (claimed_backfill abc_steps r s2) <
              screen_entry_time (claimed_backfill abc_steps r s1)"
    by blast
  from ord r s have "claimed_backfill abc_steps row_e3 1 \<in> set tbl"
    "claimed_backfill abc_steps row_e3 2 \<in> set tbl"
    "screen_entry_time (claimed_backfill abc_steps row_e3 2) <
       screen_entry_time (claimed_backfill abc_steps row_e3 1)"
    by blast+
  with tbl show ?thesis unfolding b by blast
qed

text \<open>
  The claim as stated fails on the order of the synthetic entry times: from the row at
  step 3 of the scenario (entry at 600 seconds), the table holds a row at step 1 with entry
  at 600 seconds and a row at step 2 with entry at 540 seconds, so the smaller step has the
  later entry time.
\<close>

theorem backfilled_entry_time_order_counterexample:
  "check_event_availability abc_config abc_results =
     Inr (abc_config\<lparr>steps := Some abc_steps\<rparr>, abc_steps)
   \<and> funnel_completed abc_steps [row_e3] =
     Some
      [\<lparr>actor_id = ''u1'', session_id = ''s1'', screen_name = ''A'',
        screen_entry_time = 600000000,
        step_stage = 1, current_tier = None, affluence_v11_flag = None, gender = None,
        income_range = None, app_version = None, operating_system = None, entry_point = None,
        previous_screen_name = None, screen_success_time = Some 660000000,
        is_conversion_session = 1, time_to_convert = Some 60\<rparr>,
       \<lparr>actor_id = ''u1'', session_id = ''s1'', screen_name = ''B'',
        screen_entry_time = 540000000,
        step_stage = 2, current_tier = None, affluence_v11_flag = None, gender = None,
        income_range = None, app_version = None, operating_system = None, entry_point = None,
        previous_screen_name = Some ''A'', screen_success_time = Some 660000000,
        is_conversion_session = 1, time_to_convert = Some 60\<rparr>,
       row_e3]"
proof -
  have "funnel_completion_union abc_steps [row_e3] =
      [\<lparr>actor_id = ''u1'', session_id = ''s1'', screen_name = ''A'',
        screen_entry_time = 600000000,
        step_stage = 1, current_tier = None, affluence_v11_flag = None, gender = None,
        income_range = None, app_version = None, operating_system = None, entry_point = None,
        previous_screen_name = None, screen_success_time = Some 660000000,
        is_conversion_session = 1, time_to_convert = Some 60\<rparr>,
       \<lparr>actor_id = ''u1'', session_id = ''s1'', screen_name = ''B'',
        screen_entry_time = 540000000,
        step_stage = 2, current_tier = None, affluence_v11_flag = None, gender = None,
        income_range = None, app_version = None, operating_system = None, entry_point = None,
        previous_screen_name = Some ''A'', screen_success_time = Some 660000000,
        is_conversion_session = 1, time_to_convert = Some 60\<rparr>,
       row_e3]"
    by (simp add: funnel_completion_union_def funnel_completion_rows_def
          funnel_completion_select_def abc_steps_def row_e3_def timestamp_sub_def
          timestamp_add_def)
  then show ?thesis by (simp add: abc_run funnel_completed_def abc_safe)
qed

section \<open>Lemmas on the SQL text\<close>

lemma sublist_trans': "sublist xs ys \<Longrightarrow> sublist ys zs \<Longrightarrow> sublist xs zs"
  by (rule sublist_order.order_trans)

lemma sublist_concat_mem: "x \<in> set xs \<Longrightarrow> sublist x (concat xs)"
proof -
  assume "x \<in> set xs"
  then obtain as bs where "xs = as @ x # bs" by (auto dest: split_list)
  then have "concat xs = concat as @ x @ concat bs" by simp
  then show ?thesis unfolding sublist_def by blast
qed

lemma sublist_join_mem: "x \<in> set xs \<Longrightarrow> sublist x (join sep xs)"
proof (induction sep xs rule: join.induct)
  case (1 sep)
  then show ?case by simp
next
  case (2 sep y)
  then show ?case by simp
next
  case (3 sep y z zs)
  show ?case
  proof (cases "x = y")
    case True
    then show ?thesis by (simp add: sublist_append_rightI)
  next
    case False
    with 3 have "sublist x (join sep (z # zs))" by simp
    then show ?thesis unfolding sublist_def by (metis append.assoc join.simps(3))
  qed
qed

lemma sublist_quoted_event:
  "e \<in> set evs \<Longrightarrow> sublist (sq @ e @ sq) (sq @ events_list evs @ sq)"
  unfolding events_list_def
proof (induction "sq @ '', '' @ sq" evs rule: join.induct)
  case 1
  then show ?case by simp
next
  case (2 y)
  then show ?case by simp
next
  case (3 y z zs)
  show ?case
  proof (cases "e = y")
    case True
    have "sq @ join (sq @ '', '' @ sq) (y # z # zs) @ sq =
          [] @ (sq @ y @ sq) @ ('', '' @ sq @ join (sq @ '', '' @ sq) (z # zs) @ sq)" by simp
    then show ?thesis unfolding sublist_def True by blast
  next
    case False
    with 3 have "sublist (sq @ e @ sq) (sq @ join (sq @ '', '' @ sq) (z # zs) @ sq)" by simp
    then obtain ps ss where "sq @ join (sq @ '', '' @ sq) (z # zs) @ sq = ps @ (sq @ e @ sq) @ ss"
      unfolding sublist_def by blast
    then have "sq @ join (sq @ '', '' @ sq) (y # z # zs) @ sq =
          (sq @ y @ sq @ '', '' @ ps) @ (sq @ e @ sq) @ ss" by simp
    then show ?thesis unfolding sublist_def by blast
  qed
qed

lemma screen_name_in_case:
  assumes "s \<in> set fs"
  shows "sublist (sq @ step.screen_name s @ sq) (screen_name_case fs)"
proof -
  let ?entry = "concat [''when event in ('', sq, events_list (loaded_events s), sq, '') then '',
                        sq, step.screen_name s, sq]"
  have "?entry \<in> set (screen_name_cases fs)"
    using assms by (auto simp: screen_name_cases_def)
  then have "sublist ?entry (screen_name_case fs)"
    unfolding screen_name_case_def by (rule sublist_join_mem)
  moreover have "sublist (sq @ step.screen_name s @ sq) ?entry"
  proof -
    have "?entry = (''when event in ('' @ sq @ events_list (loaded_events s) @ sq @ '') then '')
                   @ (sq @ step.screen_name s @ sq) @ []" by simp
    then show ?thesis unfolding sublist_def by blast
  qed
  ultimately show ?thesis by (rule sublist_trans' [rotated])
qed

lemma event_in_case:
  assumes "s \<in> set fs" and "e \<in> set (loaded_events s)"
  shows "sublist (sq @ e @ sq) (screen_name_case fs)"
proof -
  let ?entry = "concat [''when event in ('', sq, events_list (loaded_events s), sq, '') then '',
                        sq, step.screen_name s, sq]"
  have "?entry \<in> set (screen_name_cases fs)"
    using assms by (auto simp: screen_name_cases_def)
  then have "sublist ?entry (screen_name_case fs)"
    unfolding screen_name_case_def by (rule sublist_join_mem)
  moreover have "sublist (sq @ e @ sq) ?entry"
  proof -
    from sublist_quoted_event [OF assms(2)] obtain ps ss
      where "sq @ events_list (loaded_events s) @ sq = ps @ (sq @ e @ sq) @ ss"
      unfolding sublist_def by blast
    then have "?entry = (''when event in ('' @ ps) @ (sq @ e @ sq)
                   @ (ss @ '') then '' @ sq @ step.screen_name s @ sq)" by simp
    then show ?thesis unfolding sublist_def by blast
  qed
  ultimately show ?thesis by (rule sublist_trans' [rotated])
qed

lemma screen_name_case_in_base:
  "sublist (screen_name_case fs) (funnel_base_sql c fs u sc ec tc ds pc n)"
  unfolding funnel_base_sql_def by (rule sublist_concat_mem) simp

lemma generate_Inr_elim:
  assumes "generate_standard_funnel_sql c results = Inr sql"
  obtains c' fs p d u sc ec tc ds pc n where
    "check_event_availability c results = Inr (c', fs)" "fs \<noteq> []"
    "project_id c' = Some p" "destination_dataset c' = Some d" "user_id_column c' = Some u"
    "session_id_column c' = Some sc" "event_column c' = Some ec" "timestamp_column c' = Some tc"
    "data_source c' = Some ds" "partition_column c' = Some pc" "time_period_days c' = Some n"
    "sql = concat [
                ''\<newline>'',
                ''-- Create STANDARD_FUNNEL table with exact schema\<newline>'',
                ''-- Using funnel completion logic to fill in missing steps\<newline>'',
                ''create or replace table `'', p, ''.'', d, ''.STANDARD_FUNNEL` as (\<newline>'',
                funnel_base_sql c' fs u sc ec tc ds pc n,
                funnel_clean_sql,
                funnel_completed_sql fs,
                final_select_sql]"
  using assms unfolding generate_standard_funnel_sql_def
  by (auto split: sum.splits option.splits if_splits prod.splits)

lemma base_in_sql:
  "sublist (funnel_base_sql c fs u sc ec tc ds pc n)
     (concat [a1, a2, a3, a4, p, a5, d, a6, funnel_base_sql c fs u sc ec tc ds pc n, x, y, z])"
  by (rule sublist_concat_mem) simp

lemma quoted_run:
  "check_event_availability quoted_config [(''e1'', 1)] =
     Inr (quoted_config\<lparr>steps := Some quoted_steps\<rparr>, quoted_steps)"
  by (simp add: check_event_availability_def quoted_config_def quoted_steps_def
        FUNNEL_CONFIG_def mk_step_def Let_def available_step_events_def count_of_def)

lemma generate_Inr_intro:
  assumes "check_event_availability c results = Inr (c', fs)" "fs \<noteq> []"
    "project_id c' = Some p" "destination_dataset c' = Some d" "user_id_column c' = Some u"
    "session_id_column c' = Some sc" "event_column c' = Some ec" "timestamp_column c' = Some tc"
    "data_source c' = Some ds" "partition_column c' = Some pc" "time_period_days c' = Some n"
  shows "generate_standard_funnel_sql c results = Inr (concat [
                ''\<newline>'',
                ''-- Create STANDARD_FUNNEL table with exact schema\<newline>'',
                ''-- Using funnel completion logic to fill in missing steps\<newline>'',
                ''create or replace table `'', p, ''.'', d, ''.STANDARD_FUNNEL` as (\<newline>'',
                funnel_base_sql c' fs u sc ec tc ds pc n,
                funnel_clean_sql,
                funnel_completed_sql fs,
                final_select_sql])"
  using assms unfolding generate_standard_funnel_sql_def by simp

lemma quoted_generates:
  "\<exists>sql. generate_standard_funnel_sql quoted_config [(''e1'', 1)] = Inr sql"
  by (rule exI, rule generate_Inr_intro [OF quoted_run])
     (simp_all add: quoted_steps_def quoted_config_def FUNNEL_CONFIG_def)

section \<open>Screen names and event names in the SQL text\<close>

text \<open>
  Claim C10. The text that \<^verbatim>\<open>generate_standard_funnel_sql\<close> returns contains, for every
  filtered step, the screen name between two single quotes and each of its loaded events
  between two single quotes, as they are. So when the screen name holds a single quote, the
  text contains a quote, the part of the name before its first quote, and a quote: the
  literal ends inside the name.
\<close>

theorem names_interpolated_verbatim:
  assumes "generate_standard_funnel_sql c results = Inr sql"
    and "check_event_availability c results = Inr (c', fs)"
    and "s \<in> set fs"
  shows "sublist (sq @ step.screen_name s @ sq) sql
       \<and> (\<forall>e\<in>set (loaded_events s). sublist (sq @ e @ sq) sql)
       \<and> (CHR 0x27 \<in> set (step.screen_name s) \<longrightarrow>
            (\<exists>pre post. step.screen_name s = pre @ sq @ post \<and> CHR 0x27 \<notin> set pre
                        \<and> sublist (sq @ pre @ sq) sql))"
proof -
  from assms(1) obtain c2 fs2 p d u sc ec tc ds pc n where
    run: "check_event_availability c results = Inr (c2, fs2)" and
    sql: "sql = concat [
                ''\<newline>'',
                ''-- Create STANDARD_FUNNEL table with exact schema\<newline>'',
                ''-- Using funnel completion logic to fill in missing steps\<newline>'',
                ''create or replace table `'', p, ''.'', d, ''.STANDARD_FUNNEL` as (\<newline>'',
                funnel_base_sql c2 fs2 u sc ec tc ds pc n,
                funnel_clean_sql,
                funnel_completed_sql fs2,
                final_select_sql]"
    by (rule generate_Inr_elim)
  from run assms(2) have eq: "c2 = c'" "fs2 = fs" by simp_all
  have cases_in: "sublist (screen_name_case fs) sql"
    unfolding sql eq
    by (rule sublist_trans' [OF screen_name_case_in_base base_in_sql])
  have name: "sublist (sq @ step.screen_name s @ sq) sql"
    by (rule sublist_trans' [OF screen_name_in_case [OF assms(3)] cases_in])
  have events: "\<forall>e\<in>set (loaded_events s). sublist (sq @ e @ sq) sql"
    using sublist_trans' [OF event_in_case [OF assms(3)] cases_in] by blast
  have quote: "\<exists>pre post. step.screen_name s = pre @ sq @ post \<and> CHR 0x27 \<notin> set pre
                        \<and> sublist (sq @ pre @ sq) sql"
    if "CHR 0x27 \<in> set (step.screen_name s)"
  proof -
    from split_list_first [OF that] obtain pre post
      where sp: "step.screen_name s = pre @ CHR 0x27 # post" "CHR 0x27 \<notin> set pre" by blast
    then have "sq @ step.screen_name s @ sq = [] @ (sq @ pre @ sq) @ (post @ sq)"
      by (simp add: sq_def)
    then have "sublist (sq @ pre @ sq) (sq @ step.screen_name s @ sq)"
      unfolding sublist_def by blast
    then have "sublist (sq @ pre @ sq) sql" using name by (rule sublist_trans')
    with sp show ?thesis by (auto simp: sq_def)
  qed
  from name events quote show ?thesis by blast
qed

theorem names_interpolated_verbatim_witness:
  "\<exists>sql. generate_standard_funnel_sql quoted_config [(''e1'', 1)] = Inr sql
         \<and> sublist (sq @ ''O'Brien'' @ sq) sql
         \<and> sublist (sq @ ''e1'' @ sq) sql
         \<and> sublist (sq @ ''O'' @ sq) sql"
proof -
  from quoted_generates obtain sql
    where gen: "generate_standard_funnel_sql quoted_config [(''e1'', 1)] = Inr sql" ..
  have mem: "hd quoted_steps \<in> set quoted_steps" by (simp add: quoted_steps_def)
  from names_interpolated_verbatim [OF gen quoted_run mem]
  have "sublist (sq @ ''O'Brien'' @ sq) sql" "sublist (sq @ ''e1'' @ sq) sql"
    "\<exists>pre post. ''O'Brien'' = pre @ sq @ post \<and> CHR 0x27 \<notin> set pre \<and> sublist (sq @ pre @ sq) sql"
    by (simp_all add: quoted_steps_def)
  moreover
  have "pre = ''O''" if "''O'Brien'' = pre @ sq @ post" "CHR 0x27 \<notin> set pre" for pre post
    using that by (cases pre; cases "tl pre") (auto simp: sq_def)
  ultimately show ?thesis using gen by blast
qed

section \<open>Lemmas on the where clause\<close>

lemma check_event_availability_filters:
  "check_event_availability (c\<lparr>filters := f\<rparr>) results =
     map_sum id (\<lambda>(c', fs). (c'\<lparr>filters := f\<rparr>, fs)) (check_event_availability c results)"
  by (auto simp: check_event_availability_def Let_def split: option.splits)

lemma text_parts_filters [simp]:
  "user_seg_fields (c\<lparr>filters := f\<rparr>) = user_seg_fields c"
  "extraction_fields (c\<lparr>filters := f\<rparr>) = extraction_fields c"
  "user_join (c\<lparr>filters := f\<rparr>) = user_join c"
  by (simp_all add: user_seg_fields_def extraction_fields_def user_join_def fun_eq_iff)

lemma funnel_base_sql_filters [simp]:
  "funnel_base_sql (c\<lparr>filters := f\<rparr>) fs u sc ec tc ds pc n = funnel_base_sql c fs u sc ec tc ds pc n"
  unfolding funnel_base_sql_def by (simp only: text_parts_filters)

lemma generate_ignores_filters:
  "generate_standard_funnel_sql (c\<lparr>filters := f\<rparr>) results = generate_standard_funnel_sql c results"
  unfolding generate_standard_funnel_sql_def check_event_availability_filters
  by (cases "check_event_availability c results")
     (auto simp del: concat.simps split: option.splits prod.splits)

lemma where_in_base:
  "suffix (''    where '' @ join ''\<newline>    and '' (where_conditions fs pc tc sc n) @ ''\<newline>)\<newline>'')
     (funnel_base_sql c fs u sc ec tc ds pc n)"
proof -
  have "\<exists>pre. funnel_base_sql c fs u sc ec tc ds pc n =
     pre @ (''    where '' @ join ''\<newline>    and '' (where_conditions fs pc tc sc n) @ ''\<newline>)\<newline>'')"
    unfolding funnel_base_sql_def
    by (simp del: join.simps)
  then show ?thesis unfolding suffix_def by blast
qed

lemma check_event_availability_frame:
  assumes "check_event_availability c results = Inr (c', fs)"
  shows "c' = c\<lparr>steps := steps c'\<rparr>"
  using assms by (auto simp: check_event_availability_def Let_def split: option.splits if_splits)

lemma abc_generates:
  "\<exists>sql. generate_standard_funnel_sql abc_config abc_results = Inr sql"
  by (rule exI, rule generate_Inr_intro [OF abc_run])
     (simp_all add: abc_steps_def abc_config_def FUNNEL_CONFIG_def)

lemma str_int_30: "str_int 30 = ''30''"
  by code_simp

section \<open>The where clause of funnel_base\<close>

text \<open>
  Claim C3, as amended, a statement on the emitted text. Whenever
  \<^verbatim>\<open>generate_standard_funnel_sql\<close> returns a text, the text of \<^verbatim>\<open>funnel_base\<close> ends, right
  before \<^verbatim>\<open>funnel_clean\<close>, with the keyword \<^verbatim>\<open>where\<close> and four texts joined by \<^verbatim>\<open>and\<close>,
  in this order: \<^verbatim>\<open>event in (...)\<close> listing between single quotes the loaded events of
  the filtered steps; the partition column followed by
  \<^verbatim>\<open>>= date_sub(current_date(), interval N day)\<close>; \<^verbatim>\<open>date(e.\<close> the timestamp column
  \<^verbatim>\<open>)\<close> followed by the same comparison; the session-id expression followed by
  \<^verbatim>\<open>is not null\<close>. The returned text is the same whatever \<^verbatim>\<open>config['filters']\<close> holds.
  The statement is on the text: which rows the clause keeps is what the query engine makes
  of the pasted expressions.
\<close>

theorem funnel_base_where_conditions:
  assumes "generate_standard_funnel_sql c results = Inr sql"
  shows "\<exists>c' fs pc tc sc n.
           check_event_availability c results = Inr (c', fs)
         \<and> partition_column c = Some pc \<and> timestamp_column c = Some tc
         \<and> session_id_column c = Some sc \<and> time_period_days c = Some n
         \<and> sublist
             (''    where '' @
              join ''\<newline>    and ''
                [''event in ('' @ sq @ join (sq @ '', '' @ sq) (concat (map loaded_events fs)) @ sq @ '')'',
                 pc @ '' >= date_sub(current_date(), interval '' @ str_int n @ '' day)'',
                 ''date(e.'' @ tc @ '') >= date_sub(current_date(), interval '' @ str_int n @ '' day)'',
                 sc @ '' is not null'']
              @ ''\<newline>)\<newline>'' @ funnel_clean_sql) sql
         \<and> generate_standard_funnel_sql (c\<lparr>filters := f\<rparr>) results = Inr sql"
proof -
  from assms obtain c' fs p d u sc ec tc ds pc n where
    run: "check_event_availability c results = Inr (c', fs)" and
    flds: "session_id_column c' = Some sc" "timestamp_column c' = Some tc"
      "partition_column c' = Some pc" "time_period_days c' = Some n" and
    sql: "sql = concat [
                ''\<newline>'',
                ''-- Create STANDARD_FUNNEL table with exact schema\<newline>'',
                ''-- Using funnel completion logic to fill in missing steps\<newline>'',
                ''create or replace table `'', p, ''.'', d, ''.STANDARD_FUNNEL` as (\<newline>'',
                funnel_base_sql c' fs u sc ec tc ds pc n,
                funnel_clean_sql,
                funnel_completed_sql fs,
                final_select_sql]"
    by (rule generate_Inr_elim)
  let ?wc = "''    where '' @ join ''\<newline>    and '' (where_conditions fs pc tc sc n) @ ''\<newline>)\<newline>''"
  from where_in_base [of fs pc tc sc n c' u ec ds] obtain pre
    where base: "funnel_base_sql c' fs u sc ec tc ds pc n = pre @ ?wc"
    unfolding suffix_def by blast
  have "sql = (''\<newline>'' @ ''-- Create STANDARD_FUNNEL table with exact schema\<newline>'' @
               ''-- Using funnel completion logic to fill in missing steps\<newline>'' @
               ''create or replace table `'' @ p @ ''.'' @ d @ ''.STANDARD_FUNNEL` as (\<newline>'' @ pre)
              @ (?wc @ funnel_clean_sql) @ (funnel_completed_sql fs @ final_select_sql)"
    unfolding sql by (simp only: base concat.simps append.assoc append_Nil2)
  then have "sublist (?wc @ funnel_clean_sql) sql"
    unfolding sublist_def by blast
  then have wc: "sublist
             (''    where '' @
              join ''\<newline>    and ''
                [''event in ('' @ sq @ join (sq @ '', '' @ sq) (concat (map loaded_events fs)) @ sq @ '')'',
                 pc @ '' >= date_sub(current_date(), interval '' @ str_int n @ '' day)'',
                 ''date(e.'' @ tc @ '') >= date_sub(current_date(), interval '' @ str_int n @ '' day)'',
                 sc @ '' is not null'']
              @ ''\<newline>)\<newline>'' @ funnel_clean_sql) sql"
    by (simp add: where_conditions_def filter_clause_def events_list_def del: join.simps)
  have frame: "partition_column c' = partition_column c" "timestamp_column c' = timestamp_column c"
    "session_id_column c' = session_id_column c" "time_period_days c' = time_period_days c"
    by (subst check_event_availability_frame [OF run], simp)+
  from flds have "partition_column c = Some pc" "timestamp_column c = Some tc"
    "session_id_column c = Some sc" "time_period_days c = Some n"
    by (simp_all add: frame)
  with run wc assms show ?thesis by (simp add: generate_ignores_filters)
qed

theorem funnel_base_where_conditions_witness:
  "\<exists>sql. generate_standard_funnel_sql abc_config abc_results = Inr sql
     \<and> generate_standard_funnel_sql (abc_config\<lparr>filters := Some [''1 = 0'']\<rparr>) abc_results = Inr sql
     \<and> sublist
          (''    where event in ('e1', 'e2', 'e3')\<newline>'' @
           ''    and date >= date_sub(current_date(), interval 30 day)\<newline>'' @
           ''    and date(e.timestamp) >= date_sub(current_date(), interval 30 day)\<newline>'' @
           ''    and JSON_EXTRACT_SCALAR(properties, '$.session_id') is not null\<newline>'' @
           '')\<newline>'' @ funnel_clean_sql) sql"
proof -
  from abc_generates obtain sql
    where gen: "generate_standard_funnel_sql abc_config abc_results = Inr sql" ..
  from funnel_base_where_conditions [OF gen, of "Some [''1 = 0'']"] abc_run
  have "generate_standard_funnel_sql (abc_config\<lparr>filters := Some [''1 = 0'']\<rparr>) abc_results = Inr sql"
    and "sublist
          (''    where event in ('e1', 'e2', 'e3')\<newline>'' @
           ''    and date >= date_sub(current_date(), interval 30 day)\<newline>'' @
           ''    and date(e.timestamp) >= date_sub(current_date(), interval 30 day)\<newline>'' @
           ''    and JSON_EXTRACT_SCALAR(properties, '$.session_id') is not null\<newline>'' @
           '')\<newline>'' @ funnel_clean_sql) sql"
    by (auto simp: abc_config_def FUNNEL_CONFIG_def abc_steps_def str_int_30 sq_def)
  with gen show ?thesis by blast
qed

text \<open>
  The claim as stated fails on the configured filters: a configuration whose only filter
  is \<^verbatim>\<open>1 = 0\<close>, which no row satisfies, gets the same statement as the configuration with
  no filter at all, and the texts of the \<^verbatim>\<open>where\<close> clause are the four below, the
  filter not among them and a comparison on the date of the timestamp added.
\<close>

theorem configured_filters_counterexample:
  "generate_standard_funnel_sql (abc_config\<lparr>filters := Some [''1 = 0'']\<rparr>) abc_results =
   generate_standard_funnel_sql (abc_config\<lparr>filters := Some []\<rparr>) abc_results
   \<and> where_conditions abc_steps ''date'' ''timestamp'' ''session'' 30 =
       [''event in ('e1', 'e2', 'e3')'',
        ''date >= date_sub(current_date(), interval 30 day)'',
        ''date(e.timestamp) >= date_sub(current_date(), interval 30 day)'',
        ''session is not null'']"
  by (simp add: generate_ignores_filters where_conditions_def filter_clause_def events_list_def
        abc_steps_def str_int_30 sq_def)

section \<open>Lemmas on the final projection\<close>

text \<open>The two final selects, as the text of the two source files.\<close>

lemma final_select_sql_text:
  "final_select_sql =
     ''select \<newline>'' @
     ''    actor_id,\<newline>'' @
     ''    current_tier,\<newline>'' @
     ''    affluence_v11_flag,\<newline>'' @
     ''    gender,\<newline>'' @
     ''    income_range,\<newline>'' @
     ''    session_id,\<newline>'' @
     ''    app_version,\<newline>'' @
     ''    operating_system,\<newline>'' @
     ''    entry_point,\<newline>'' @
     ''    screen_name,\<newline>'' @
     ''    screen_entry_time,\<newline>'' @
     ''    cast(step_stage as string) as step,\<newline>'' @
     ''    step_stage,\<newline>'' @
     ''    previous_screen_name,\<newline>'' @
     ''    screen_success_time,\<newline>'' @
     ''    is_conversion_session,\<newline>'' @
     ''    time_to_convert,\<newline>'' @
     ''    current_timestamp() as table_created_at\<newline>'' @
     ''from funnel_completed\<newline>'' @
     ''order by actor_id, session_id, step_stage, screen_entry_time\<newline>'' @
     '')\<newline>''"
  by (simp add: final_select_sql_def final_projection_def render_item_def)

lemma unified_final_select_sql_text:
  "unified_final_select_sql =
     ''select \<newline>'' @
     ''    actor_id,\<newline>'' @
     ''    null as current_tier,\<newline>'' @
     ''    null as affluence_v11_flag,\<newline>'' @
     ''    null as gender,\<newline>'' @
     ''    null as income_range,\<newline>'' @
     ''    session_id,\<newline>'' @
     ''    null as app_version,\<newline>'' @
     ''    null as operating_system,\<newline>'' @
     ''    null as entry_point,\<newline>'' @
     ''    screen_name,\<newline>'' @
     ''    screen_entry_time,\<newline>'' @
     ''    cast(step_stage as string) as step,\<newline>'' @
     ''    step_stage,\<newline>'' @
     ''    previous_screen_name,\<newline>'' @
     ''    screen_success_time,\<newline>'' @
     ''    is_conversion_session,\<newline>'' @
     ''    time_to_convert,\<newline>'' @
     ''    current_timestamp() as table_created_at,\<newline>'' @
     ''    -- Add aggregated fields for Tableau\<newline>'' @
     ''    COUNT(*) OVER (PARTITION BY step_stage) as total_users,\<newline>'' @
     ''    COUNT(*) OVER (PARTITION BY 1) as total_users_first_step\<newline>'' @
     ''from funnel_completed\<newline>'' @
     ''order by actor_id, session_id, step_stage, screen_entry_time\<newline>'' @
     '')\<newline>''"
  by (simp add: unified_final_select_sql_def unified_final_projection_def render_item_def)


section \<open>The columns of the final projection\<close>




section \<open>Lemmas on validate_config\<close>

lemma check_fields_None:
  "check_fields fs c = None \<longleftrightarrow> (\<forall>(n, p) \<in> set fs. p c)"
  by (induction fs c rule: check_fields.induct) auto

lemma check_fields_cong:
  "(\<And>n p. (n, p) \<in> set fs \<Longrightarrow> p c = p c') \<Longrightarrow> check_fields fs c = check_fields fs c'"
  by (induction fs c rule: check_fields.induct) auto

lemma check_required_fields:
  "check_fields required_fields c = None \<longleftrightarrow>
     funnel_name c \<noteq> None \<and> project_id c \<noteq> None \<and> source_dataset c \<noteq> None
   \<and> destination_dataset c \<noteq> None \<and> data_source c \<noteq> None \<and> user_id_column c \<noteq> None
   \<and> session_id_column c \<noteq> None \<and> event_column c \<noteq> None \<and> timestamp_column c \<noteq> None
   \<and> partition_column c \<noteq> None \<and> time_period_days c \<noteq> None \<and> steps c \<noteq> None"
  unfolding check_fields_None by (simp add: required_fields_def)

lemma validate_config_Inr:
  "validate_config c = Inr True \<longleftrightarrow>
     funnel_name c \<noteq> None \<and> project_id c \<noteq> None \<and> source_dataset c \<noteq> None
   \<and> destination_dataset c \<noteq> None \<and> data_source c \<noteq> None \<and> user_id_column c \<noteq> None
   \<and> session_id_column c \<noteq> None \<and> event_column c \<noteq> None \<and> timestamp_column c \<noteq> None
   \<and> partition_column c \<noteq> None \<and> time_period_days c \<noteq> None
   \<and> (\<exists>ss. steps c = Some ss \<and> ss \<noteq> [])"
proof -
  have "validate_config c = Inr True \<longleftrightarrow>
          check_fields required_fields c = None \<and> (\<exists>ss. steps c = Some ss \<and> ss \<noteq> [])"
    by (simp add: validate_config_def split: option.splits)
  then show ?thesis unfolding check_required_fields by blast
qed

lemma validate_config_days:
  assumes "time_period_days c \<noteq> None"
  shows "validate_config (c\<lparr>time_period_days := Some n\<rparr>) = validate_config c"
proof -
  have "check_fields required_fields (c\<lparr>time_period_days := Some n\<rparr>) =
        check_fields required_fields c"
    using assms by (intro check_fields_cong) (auto simp: required_fields_def)
  then show ?thesis by (simp add: validate_config_def split: option.splits)
qed

lemma zero_days_run:
  "check_event_availability zero_days_config abc_results =
     Inr (zero_days_config\<lparr>steps := Some abc_steps\<rparr>, abc_steps)"
  by (simp add: check_event_availability_def zero_days_config_def abc_config_def abc_results_def
        abc_steps_def FUNNEL_CONFIG_def mk_step_def Let_def available_step_events_def count_of_def)

lemma zero_days_generates:
  "\<exists>sql. generate_standard_funnel_sql zero_days_config abc_results = Inr sql"
  by (rule exI, rule generate_Inr_intro [OF zero_days_run])
     (simp_all add: abc_steps_def zero_days_config_def abc_config_def FUNNEL_CONFIG_def)

lemma zero_days_validates: "validate_config zero_days_config = Inr True"
  unfolding validate_config_Inr
  by (simp add: zero_days_config_def abc_config_def FUNNEL_CONFIG_def)

section \<open>Validation of a period of zero days\<close>

text \<open>
  Claim C7, as amended. For a configuration with \<^verbatim>\<open>time_period_days\<close> equal to 0,
  \<^verbatim>\<open>validate_config\<close> answers as it does for the same configuration with any other
  number of days: it returns \<^verbatim>\<open>True\<close> exactly when the other eleven required keys are
  present and \<^verbatim>\<open>steps\<close> is a non-empty list. The value 0 is no reason to fail.
\<close>

theorem validate_config_time_period_zero:
  assumes "time_period_days c = Some 0"
  shows "validate_config c = validate_config (c\<lparr>time_period_days := Some n\<rparr>)
       \<and> (validate_config c = Inr True \<longleftrightarrow>
            funnel_name c \<noteq> None \<and> project_id c \<noteq> None \<and> source_dataset c \<noteq> None
          \<and> destination_dataset c \<noteq> None \<and> data_source c \<noteq> None \<and> user_id_column c \<noteq> None
          \<and> session_id_column c \<noteq> None \<and> event_column c \<noteq> None \<and> timestamp_column c \<noteq> None
          \<and> partition_column c \<noteq> None \<and> (\<exists>ss. steps c = Some ss \<and> ss \<noteq> []))"
  using assms validate_config_days [of c n] by (simp add: validate_config_Inr)

theorem validate_config_time_period_zero_witness:
  "validate_config zero_days_config = validate_config (zero_days_config\<lparr>time_period_days := Some 30\<rparr>)
   \<and> validate_config zero_days_config = Inr True"
proof -
  have days: "time_period_days zero_days_config = Some 0"
    by (simp add: zero_days_config_def)
  from validate_config_time_period_zero [OF days, of 30] zero_days_validates
  show ?thesis by simp
qed

text \<open>
  The claim as stated fails on the three-step funnel with a period of zero days:
  \<^verbatim>\<open>validate_config\<close> returns \<^verbatim>\<open>True\<close>, and \<^verbatim>\<open>generate_standard_funnel_sql\<close>
  returns a statement.
\<close>

theorem time_period_zero_accepted_counterexample:
  "time_period_days zero_days_config = Some 0
   \<and> validate_config zero_days_config = Inr True
   \<and> (\<exists>sql. generate_standard_funnel_sql zero_days_config abc_results = Inr sql)"
  using zero_days_validates zero_days_generates
  by (simp add: zero_days_config_def)

section \<open>Lemmas on an event declared by two steps\<close>

lemma validate_config_steps:
  assumes "ss = [] \<longleftrightarrow> ss' = []"
  shows "validate_config (c\<lparr>steps := Some ss'\<rparr>) = validate_config (c\<lparr>steps := Some ss\<rparr>)"
proof -
  have "check_fields required_fields (c\<lparr>steps := Some ss'\<rparr>) =
        check_fields required_fields (c\<lparr>steps := Some ss\<rparr>)"
    by (intro check_fields_cong) (auto simp: required_fields_def)
  with assms show ?thesis by (simp add: validate_config_def split: option.splits)
qed

lemma first_match_case:
  assumes "event \<in> set (loaded_events s)" "\<forall>p \<in> set pre. event \<notin> set (loaded_events p)"
  shows "step_stage_case (pre @ s # post) event = Some (rank s)
       \<and> screen_name_case_of (pre @ s # post) event = step.screen_name s"
  using assms by (induction pre) auto

lemma dup_run:
  "check_event_availability dup_config [(''e1'', 1)] =
     Inr (dup_config\<lparr>steps := Some dup_steps\<rparr>, dup_steps)"
  by (simp add: check_event_availability_def dup_config_def dup_steps_def
        FUNNEL_CONFIG_def mk_step_def Let_def available_step_events_def count_of_def)

lemma dup_generates:
  "\<exists>sql. generate_standard_funnel_sql dup_config [(''e1'', 1)] = Inr sql"
  by (rule exI, rule generate_Inr_intro [OF dup_run])
     (simp_all add: dup_steps_def dup_config_def FUNNEL_CONFIG_def)

lemma dup_validates: "validate_config dup_config = Inr True"
  unfolding validate_config_Inr
  by (simp add: dup_config_def FUNNEL_CONFIG_def)

lemma dup_safe: "literals_safe dup_steps"
  by (simp add: literals_safe_def literal_safe_def dup_steps_def)

lemma dup_labels: "funnel_base_labels dup_steps ''e1'' = Some (Some 1, ''A'')"
  unfolding funnel_base_labels_def using dup_safe by (simp add: dup_steps_def)

section \<open>An event declared by two steps\<close>

text \<open>
  Claim C6, as amended. \<^verbatim>\<open>validate_config\<close> does not read the events of the steps: it
  answers the same whatever events the steps declare, so an event declared by two steps
  is no reason to fail. For steps whose screen names and event names hold no single quote,
  backslash or line break, the two \<^verbatim>\<open>case\<close> expressions of \<^verbatim>\<open>funnel_base\<close> give an
  event the rank and the screen name of the first step, in list order, that declares it.
\<close>

theorem overlapping_events_first_match:
  "validate_config (c\<lparr>steps := Some (map (\<lambda>s. s\<lparr>loaded_events := events s\<rparr>) ss)\<rparr>) =
     validate_config (c\<lparr>steps := Some ss\<rparr>)
   \<and> (literals_safe (pre @ s # post) \<and> event \<in> set (loaded_events s)
        \<and> (\<forall>p \<in> set pre. event \<notin> set (loaded_events p))
      \<longrightarrow> funnel_base_labels (pre @ s # post) event = Some (Some (rank s), step.screen_name s))"
proof -
  have "validate_config (c\<lparr>steps := Some (map (\<lambda>s. s\<lparr>loaded_events := events s\<rparr>) ss)\<rparr>) =
     validate_config (c\<lparr>steps := Some ss\<rparr>)"
    by (rule validate_config_steps) simp
  moreover have "funnel_base_labels (pre @ s # post) event = Some (Some (rank s), step.screen_name s)"
    if "literals_safe (pre @ s # post)" "event \<in> set (loaded_events s)"
      "\<forall>p \<in> set pre. event \<notin> set (loaded_events p)"
    using that first_match_case [of event s pre post] by (simp add: funnel_base_labels_def)
  ultimately show ?thesis by blast
qed

theorem overlapping_events_first_match_witness:
  "validate_config (FUNNEL_CONFIG\<lparr>steps := Some (map (\<lambda>s. s\<lparr>loaded_events := [''e1'']\<rparr>)
        [mk_step 1 ''A'' [''e1''], mk_step 2 ''B'' [''e2'']])\<rparr>) =
     validate_config (FUNNEL_CONFIG\<lparr>steps := Some [mk_step 1 ''A'' [''e1''], mk_step 2 ''B'' [''e2'']]\<rparr>)
   \<and> funnel_base_labels dup_steps ''e1'' = Some (Some 1, ''A'')"
proof -
  have safe: "literals_safe ([] @ hd dup_steps # tl dup_steps)"
    using dup_safe by (simp add: dup_steps_def)
  from overlapping_events_first_match [where pre = "[]" and s = "hd dup_steps"
      and post = "tl dup_steps" and event = "''e1''" and c = FUNNEL_CONFIG
      and events = "\<lambda>s. [''e1'']" and ss = "[mk_step 1 ''A'' [''e1''], mk_step 2 ''B'' [''e2'']]"] safe
  show ?thesis by (simp add: dup_steps_def)
qed

text \<open>
  The claim as stated fails on the funnel that declares e1 in step 1 and in step 2:
  \<^verbatim>\<open>validate_config\<close> returns \<^verbatim>\<open>True\<close>, \<^verbatim>\<open>check_event_availability\<close> keeps both
  steps, \<^verbatim>\<open>generate_standard_funnel_sql\<close> returns a statement, and the statement labels
  e1 with step 1, screen A.
\<close>

theorem overlapping_events_accepted_counterexample:
  "validate_config dup_config = Inr True
   \<and> check_event_availability dup_config [(''e1'', 1)] =
       Inr (dup_config\<lparr>steps := Some dup_steps\<rparr>, dup_steps)
   \<and> (\<exists>sql. generate_standard_funnel_sql dup_config [(''e1'', 1)] = Inr sql)
   \<and> funnel_base_labels dup_steps ''e1'' = Some (Some 1, ''A'')"
  using dup_validates dup_run dup_generates dup_labels by simp

section \<open>Lemmas on the percentile query\<close>

lemma tier_run:
  "\<exists>c' fs. check_event_availability FUNNEL_CONFIG tier_results = Inr (c', fs)
     \<and> map (\<lambda>s. (step.screen_name s, rank s)) fs =
         [(''Tiering - Overview screen'', 1), (''Add funds - Enter amount'', 2),
          (''Add funds - Payment options'', 3), (''Add funds - Payment success'', 4),
          (''Tiering - Upgrade screen'', 5)]
     \<and> generate_percentiles_sql c' = generate_percentiles_sql FUNNEL_CONFIG"
  by (simp add: check_event_availability_def tier_results_def generate_percentiles_sql_def
        FUNNEL_CONFIG_def mk_step_def Let_def available_step_events_def count_of_def)

section \<open>The step order of the percentile query\<close>

text \<open>
  Claim C5. The text that \<^verbatim>\<open>generate_percentiles_sql\<close> returns does not depend on the
  steps of the configuration: its two \<^verbatim>\<open>CASE\<close> expressions are the six lines written in
  the source. With the embedded configuration and no \<^verbatim>\<open>ClickedJoinTierButton\<close> event in
  the data, \<^verbatim>\<open>check_event_availability\<close> leaves five steps, ranked 1 to 5, which the
  funnel statement uses, and the percentile statement for the configuration it leaves is
  the one for the embedded configuration: it gives the five screens the step orders 1, 3,
  4, 5 and 6, not their ranks in that run. A screen name that is not one of the six gets 999.
\<close>

theorem percentile_step_order_fixed:
  "generate_percentiles_sql (c\<lparr>steps := ss\<rparr>) = generate_percentiles_sql c
   \<and> (\<exists>c' fs. check_event_availability FUNNEL_CONFIG tier_results = Inr (c', fs)
        \<and> map (\<lambda>s. (step.screen_name s, rank s)) fs =
            [(''Tiering - Overview screen'', 1), (''Add funds - Enter amount'', 2),
             (''Add funds - Payment options'', 3), (''Add funds - Payment success'', 4),
             (''Tiering - Upgrade screen'', 5)]
        \<and> generate_percentiles_sql c' = generate_percentiles_sql FUNNEL_CONFIG)
   \<and> map step_order [''Tiering - Overview screen'', ''Add funds - Enter amount'',
        ''Add funds - Payment options'', ''Add funds - Payment success'',
        ''Tiering - Upgrade screen'', ''A''] = [1, 3, 4, 5, 6, 999]"
proof -
  have "generate_percentiles_sql (c\<lparr>steps := ss\<rparr>) = generate_percentiles_sql c"
    by (simp add: generate_percentiles_sql_def del: concat.simps split: option.splits)
  moreover have "map step_order [''Tiering - Overview screen'', ''Add funds - Enter amount'',
        ''Add funds - Payment options'', ''Add funds - Payment success'',
        ''Tiering - Upgrade screen'', ''A''] = [1, 3, 4, 5, 6, 999]"
    by (simp add: step_order_def percentile_cases_def)
  ultimately show ?thesis using tier_run by blast
qed

section \<open>Lemmas on a second run of check_event_availability\<close>

lemma rerank_loop_nth:
  "k < length ps \<Longrightarrow> rerank_loop i ps ! k =
     (if snd (ps ! k)
      then ((fst (ps ! k))\<lparr>rank := i + int (length (filter snd (take k ps))) + 1\<rparr>, True)
      else ps ! k)"
proof (induction i ps arbitrary: k rule: rerank_loop.induct)
  case (1 i)
  then show ?case by simp
next
  case (2 i s kept ps)
  show ?case
  proof (cases k)
    case 0
    then show ?thesis by simp
  next
    case (Suc k')
    with 2 show ?thesis by (cases kept) (simp_all add: add.commute add.left_commute)
  qed
qed

lemma available_update_step:
  "step_available av s \<Longrightarrow> step_available av ((update_step av s)\<lparr>rank := r\<rparr>)"
  by (simp add: step_available_def available_step_events_def update_step_def)

lemma kept_are_available:
  "filter (step_available av) (map fst (rerank_loop i (filter_loop av ss))) =
   map fst (filter snd (rerank_loop i (filter_loop av ss)))"
proof (induction ss arbitrary: i)
  case Nil
  then show ?case by simp
next
  case (Cons s ss)
  have step: "filter_loop av (s # ss) =
      (if step_available av s then (update_step av s, True) else (s, False)) # filter_loop av ss"
    by (simp add: Let_def step_available_def update_step_def)
  show ?case unfolding step using Cons [of i] Cons [of "i + 1"] available_update_step [of av s "i + 1"]
    by simp
qed

lemma update_step_twice:
  "(update_step av ((update_step av s)\<lparr>rank := r\<rparr>))\<lparr>rank := r\<rparr> =
   ((update_step av s)\<lparr>rank := r\<rparr>)
     \<lparr>original_events := Some (loaded_events ((update_step av s)\<lparr>rank := r\<rparr>))\<rparr>"
  by (simp add: update_step_def available_step_events_def)

lemma map_enumerate_twice:
  assumes "\<And>j s. g j (g j s) = u (g j s)"
  shows "map (\<lambda>(j, s). g j s) (enumerate n (map (\<lambda>(j, s). g j s) (enumerate n xs))) =
         map u (map (\<lambda>(j, s). g j s) (enumerate n xs))"
  by (rule nth_equalityI) (simp_all add: nth_enumerate_eq assms)

lemma second_run:
  assumes "check_event_availability c results = Inr (c', fs)"
  shows "\<exists>ss''. check_event_availability c' results =
           Inr (c'\<lparr>steps := Some ss''\<rparr>, map (\<lambda>s. s\<lparr>original_events := Some (loaded_events s)\<rparr>) fs)"
proof -
  let ?av = "available_events results"
  let ?g = "\<lambda>j s. (update_step ?av s)\<lparr>rank := int j + 1\<rparr>"
  from assms obtain ss where ss: "steps c = Some ss"
    and flds: "data_source c \<noteq> None" "partition_column c \<noteq> None" "time_period_days c \<noteq> None"
    by (auto simp: check_event_availability_def split: option.splits if_splits)
  let ?store = "rerank_loop 0 (filter_loop ?av ss)"
  from assms ss have c': "c' = c\<lparr>steps := Some (map fst ?store)\<rparr>"
    and fs: "fs = map fst (filter snd ?store)"
    by (auto simp: check_event_availability_def Let_def split: if_splits)
  have fs_enum: "fs = map (\<lambda>(j, s). ?g j s) (enumerate 0 (filter (step_available ?av) ss))"
    using check_event_availability_Inr(1) [OF assms ss] .
  let ?store2 = "rerank_loop 0 (filter_loop ?av (map fst ?store))"
  have "map fst (filter snd ?store2) =
          map (\<lambda>(j, s). ?g j s) (enumerate 0 (filter (step_available ?av) (map fst ?store)))"
    by (simp add: rerank_loop_kept filter_loop_kept enumerate_map case_prod_unfold comp_def)
  also have "\<dots> = map (\<lambda>(j, s). ?g j s) (enumerate 0 fs)"
    by (simp only: kept_are_available fs)
  also have "\<dots> = map (\<lambda>s. s\<lparr>original_events := Some (loaded_events s)\<rparr>) fs"
    unfolding fs_enum by (rule map_enumerate_twice) (rule update_step_twice)
  finally have kept: "map fst (filter snd ?store2) =
      map (\<lambda>s. s\<lparr>original_events := Some (loaded_events s)\<rparr>) fs" .
  have "check_event_availability c' results =
          Inr (c'\<lparr>steps := Some (map fst ?store2)\<rparr>, map fst (filter snd ?store2))"
    using flds by (simp add: check_event_availability_def c' Let_def)
  then show ?thesis unfolding kept by blast
qed

lemma text_parts_steps [simp]:
  "user_seg_fields (c\<lparr>steps := x\<rparr>) = user_seg_fields c"
  "extraction_fields (c\<lparr>steps := x\<rparr>) = extraction_fields c"
  "user_join (c\<lparr>steps := x\<rparr>) = user_join c"
  by (simp_all add: user_seg_fields_def extraction_fields_def user_join_def fun_eq_iff)

lemma funnel_base_sql_steps:
  "funnel_base_sql (c\<lparr>steps := x\<rparr>) fs u sc ec tc ds pc n = funnel_base_sql c fs u sc ec tc ds pc n"
  unfolding funnel_base_sql_def by (simp only: text_parts_steps)

lemma funnel_base_sql_original_events:
  "funnel_base_sql c (map (\<lambda>s. s\<lparr>original_events := f s\<rparr>) fs) u sc ec tc ds pc n =
   funnel_base_sql c fs u sc ec tc ds pc n"
proof -
  let ?fs' = "map (\<lambda>s. s\<lparr>original_events := f s\<rparr>) fs"
  have "step_case ?fs' = step_case fs" "screen_name_case ?fs' = screen_name_case fs"
    "where_conditions ?fs' pc tc sc n = where_conditions fs pc tc sc n"
    by (simp_all add: step_case_def step_cases_def screen_name_case_def screen_name_cases_def
          where_conditions_def filter_clause_def comp_def del: join.simps)
  then show ?thesis unfolding funnel_base_sql_def by (simp only:)
qed

lemma funnel_completed_sql_original_events:
  "funnel_completed_sql (map (\<lambda>s. s\<lparr>original_events := f s\<rparr>) fs) = funnel_completed_sql fs"
proof -
  let ?u = "\<lambda>s. s\<lparr>original_events := f s\<rparr>"
  have "funnel_completion_case i (?u s) (map ?u fs) = funnel_completion_case i s fs"
    if "i < length fs" for i s
    using that by (simp add: funnel_completion_case_def Let_def del: concat.simps)
  then have "funnel_completion_cases (map ?u fs) = funnel_completion_cases fs"
    unfolding funnel_completion_cases_def enumerate_map
    by (auto simp: in_set_enumerate_eq simp del: concat.simps intro!: map_cong)
  then show ?thesis by (simp only: funnel_completed_sql_def funnel_completion_sql_def)
qed

lemma generate_second:
  assumes "check_event_availability c results = Inr (c', fs)"
  shows "generate_standard_funnel_sql c' results = generate_standard_funnel_sql c results"
proof -
  from second_run [OF assms] obtain ss'' where
    run2: "check_event_availability c' results =
           Inr (c'\<lparr>steps := Some ss''\<rparr>, map (\<lambda>s. s\<lparr>original_events := Some (loaded_events s)\<rparr>) fs)"
    by blast
  show ?thesis
    unfolding generate_standard_funnel_sql_def run2 assms
    by (simp add: funnel_base_sql_steps funnel_base_sql_original_events
          funnel_completed_sql_original_events del: concat.simps split: option.splits)
qed

lemma partial_run:
  "check_event_availability abc_config partial_results =
     Inr (abc_config\<lparr>steps := Some
            [\<lparr>rank = 1, screen_name = ''A'', loaded_events = [''e1''],
              original_events = Some [''e1''], event_count = Some 1\<rparr>,
             \<lparr>rank = 2, screen_name = ''B'', loaded_events = [''e2''],
              original_events = None, event_count = None\<rparr>,
             \<lparr>rank = 2, screen_name = ''C'', loaded_events = [''e3''],
              original_events = Some [''e3''], event_count = Some 1\<rparr>]\<rparr>,
          [\<lparr>rank = 1, screen_name = ''A'', loaded_events = [''e1''],
            original_events = Some [''e1''], event_count = Some 1\<rparr>,
           \<lparr>rank = 2, screen_name = ''C'', loaded_events = [''e3''],
            original_events = Some [''e3''], event_count = Some 1\<rparr>])"
  by (simp add: check_event_availability_def abc_config_def partial_results_def
        FUNNEL_CONFIG_def mk_step_def Let_def available_step_events_def count_of_def)

lemma abc_config_steps:
  "steps abc_config = Some [mk_step 1 ''A'' [''e1''], mk_step 2 ''B'' [''e2''], mk_step 3 ''C'' [''e3'']]"
  by (simp add: abc_config_def)

section \<open>Availability filtering: what the call leaves in the configuration\<close>

text \<open>
  Claim C8, as amended. When \<^verbatim>\<open>check_event_availability\<close> returns, the configuration
  of the caller differs from the one it received in its steps at most: the list
  \<^verbatim>\<open>config['steps']\<close> has the same length; a step with no available event is as it
  was; a step with an available event has been updated in place (its loaded events
  narrowed to the available ones, \<^verbatim>\<open>original_events\<close> and \<^verbatim>\<open>event_count\<close> set) and
  its rank set to its position, from 1, among the steps with an available event. The
  returned list is new, and it holds the steps of the configuration, as the call leaves
  them, that have an available event, in list order. Generating the statement a second
  time from the configuration the call left, against the same availability rows, returns
  the same text.
\<close>

theorem check_event_availability_in_place:
  assumes "check_event_availability c results = Inr (c', fs)" and "steps c = Some ss"
  shows "\<exists>ss'. c' = c\<lparr>steps := Some ss'\<rparr> \<and> length ss' = length ss
       \<and> fs = filter (step_available (available_events results)) ss'
       \<and> (\<forall>i<length ss. ss' ! i =
            (if step_available (available_events results) (ss ! i)
             then (update_step (available_events results) (ss ! i))
                    \<lparr>rank := int (length (filter (step_available (available_events results))
                                              (take i ss))) + 1\<rparr>
             else ss ! i))
       \<and> generate_standard_funnel_sql c' results = generate_standard_funnel_sql c results"
proof -
  let ?av = "available_events results"
  let ?F = "\<lambda>s. if step_available ?av s then (update_step ?av s, True) else (s, False)"
  let ?store = "rerank_loop 0 (filter_loop ?av ss)"
  from assms have c': "c' = c\<lparr>steps := Some (map fst ?store)\<rparr>"
    and fs: "fs = map fst (filter snd ?store)"
    by (auto simp: check_event_availability_def Let_def split: if_splits)
  have len: "length (map fst ?store) = length ss"
    by (simp add: rerank_loop_length filter_loop_map)
  have kept: "fs = filter (step_available ?av) (map fst ?store)"
    unfolding fs by (rule kept_are_available [symmetric])
  have nth: "map fst ?store ! i =
            (if step_available ?av (ss ! i)
             then (update_step ?av (ss ! i))
                    \<lparr>rank := int (length (filter (step_available ?av) (take i ss))) + 1\<rparr>
             else ss ! i)" if "i < length ss" for i
  proof -
    have count: "length (filter snd (take i (map ?F ss))) =
                 length (filter (step_available ?av) (take i ss))"
      by (simp add: take_map filter_map comp_def if_distrib [of snd] cong: if_cong)
    from that have "i < length (filter_loop ?av ss)" by (simp add: filter_loop_map)
    from rerank_loop_nth [OF this, of 0] that count show ?thesis
      by (simp add: rerank_loop_length filter_loop_map)
  qed
  from c' len kept nth generate_second [OF assms(1)] show ?thesis by blast
qed

theorem check_event_availability_in_place_witness:
  "generate_standard_funnel_sql (abc_config\<lparr>steps := Some abc_steps\<rparr>) abc_results =
   generate_standard_funnel_sql abc_config abc_results"
  using check_event_availability_in_place [OF abc_run abc_config_steps] by blast

text \<open>
  The claim as stated fails on the three-step funnel when e2 is not in the data: after the
  call the configuration of the caller holds step A with \<^verbatim>\<open>original_events\<close> and
  \<^verbatim>\<open>event_count\<close> set, step B unchanged at rank 2, and step C with its rank changed from
  3 to 2.
\<close>

theorem configuration_mutated_counterexample:
  "steps abc_config =
     Some [mk_step 1 ''A'' [''e1''], mk_step 2 ''B'' [''e2''], mk_step 3 ''C'' [''e3'']]
   \<and> check_event_availability abc_config partial_results =
     Inr (abc_config\<lparr>steps := Some
            [\<lparr>rank = 1, screen_name = ''A'', loaded_events = [''e1''],
              original_events = Some [''e1''], event_count = Some 1\<rparr>,
             \<lparr>rank = 2, screen_name = ''B'', loaded_events = [''e2''],
              original_events = None, event_count = None\<rparr>,
             \<lparr>rank = 2, screen_name = ''C'', loaded_events = [''e3''],
              original_events = Some [''e3''], event_count = Some 1\<rparr>]\<rparr>,
          [\<lparr>rank = 1, screen_name = ''A'', loaded_events = [''e1''],
            original_events = Some [''e1''], event_count = Some 1\<rparr>,
           \<lparr>rank = 2, screen_name = ''C'', loaded_events = [''e3''],
            original_events = Some [''e3''], event_count = Some 1\<rparr>])"
  using partial_run abc_config_steps by simp

end
